theory Spec2Isabelle
  imports Main "HOL-Library.AList"
begin

section \<open>The desktop release builder (src/desktop_release.js)\<close>

text \<open>
  The orchestrator is a sequential asynchronous program: every \<open>await\<close> hands control to
  an external collaborator (child process, file system, secret store, git, runner, Windows
  builder) and resumes with its outcome. The model threads an explicit state through the
  program. The state holds the two mutable fields of the builder object, the log of
  everything the program did to the outside world, and the remote published tree.
  What a collaborator answers is not decided by the program: it is read from an
  environment, which may look at the whole history so far.
\<close>

subsection \<open>Values\<close>

text \<open>
  Parsed JSON. Objects are association lists in insertion order; \<open>JSON.parse\<close> yields
  distinct keys. Numbers are kept as integers (no claim here reads a number).
\<close>

datatype json =
    JNull
  | JBool bool
  | JNum int
  | JStr string
  | JArr "json list"
  | JObj "(string \<times> json) list"

text \<open>A regular expression literal: its source text and its \<open>test\<close> method. The
  literals of this file carry no \<open>g\<close> or \<open>y\<close> flag, so \<open>test\<close> is a pure predicate.\<close>

record regexp =
  source :: string
  test :: "string \<Rightarrow> bool"

datatype runner =
    Runner string
  | DockerRunner string string

text \<open>\<open>new WindowsBuilder(repoDir, type, vmName, username, password, keyContainer)\<close>;
  the key container is \<open>undefined\<close> (\<open>None\<close>) on a builder object that never ran
  \<open>start\<close>.\<close>

datatype winbuilder =
  WindowsBuilder string string string string string "string option"

text \<open>Calls that leave the program. The arguments are the ones the source passes.\<close>

datatype call =
    GetSecret string
  | Spawn string "string option list" "string option"
  | ReadFile string
  | WriteFile string string
  | Readdir string
  | CopyFile string string
  | Mkdir string
  | Rimraf string
  | GitClone string "string list"
  | Run runner "string list"
  | WinStart winbuilder
  | WinAppendScript winbuilder "string list"
  | WinRunScript winbuilder
  | WinStop winbuilder

datatype err =
    Rejected call
  | NoFilesFound string
  | TypeError string
  | SyntaxError string

datatype event =
    Info string
  | Error string err
  | SetBuilding bool
  | Did call bool

type_synonym tree = "(string \<times> string) list"

record state =
  building :: bool
  riotSigningKeyContainer :: "string option"
  trace :: "event list"
  remote :: tree

text \<open>
  The environment: the outcome of each external call, given the history. \<open>succeeds\<close>
  answers the calls that only resolve or reject; the three readers return what was read,
  or \<open>None\<close> when they reject. \<open>push_result\<close> is the remote published tree an
  \<open>rsync\<close> into it leaves behind. \<open>json_parse\<close>, \<open>json_stringify\<close> and
  \<open>to_string\<close> are the language's \<open>JSON.parse\<close>, \<open>JSON.stringify(_, null, 4)\<close>
  and string conversion of a value that is not a string (\<open>None\<close> is \<open>undefined\<close>).
\<close>

record env =
  succeeds :: "event list \<Rightarrow> call \<Rightarrow> bool"
  get_secret :: "event list \<Rightarrow> string \<Rightarrow> string option"
  read_file :: "event list \<Rightarrow> string \<Rightarrow> string option"
  read_dir :: "event list \<Rightarrow> string \<Rightarrow> string list option"
  push_result :: "event list \<Rightarrow> tree \<Rightarrow> tree"
  json_parse :: "string \<Rightarrow> json option"
  json_stringify :: "json \<Rightarrow> string"
  to_string :: "json option \<Rightarrow> string"

subsection \<open>Sequencing\<close>

type_synonym 'a prog = "state \<Rightarrow> (err + 'a) \<times> state"

definition emit :: "event \<Rightarrow> state \<Rightarrow> state" where
  "emit e s = s\<lparr>trace := trace s @ [e]\<rparr>"

definition resolve :: "'a \<Rightarrow> 'a prog" where
  "resolve x s = (Inr x, s)"

definition throw :: "err \<Rightarrow> 'a prog" where
  "throw e s = (Inl e, s)"

definition bnd :: "'a prog \<Rightarrow> ('a \<Rightarrow> 'b prog) \<Rightarrow> 'b prog" where
  "bnd m f s = (case m s of (Inl e, s') \<Rightarrow> (Inl e, s') | (Inr x, s') \<Rightarrow> f x s')"

definition andThen :: "unit prog \<Rightarrow> 'a prog \<Rightarrow> 'a prog" where
  "andThen m n = bnd m (\<lambda>_. n)"

text \<open>A block of statements, run in order up to the first one that throws.\<close>

fun steps :: "unit prog list \<Rightarrow> unit prog" where
  "steps [] = resolve ()"
| "steps (m # ms) = andThen m (steps ms)"

text \<open>\<open>for (const x of xs) { await body(x) }\<close>\<close>

fun for_of :: "'a list \<Rightarrow> ('a \<Rightarrow> unit prog) \<Rightarrow> unit prog" where
  "for_of [] body = resolve ()"
| "for_of (x # xs) body = andThen (body x) (for_of xs body)"

text \<open>\<open>try { m } finally { fin }\<close>: \<open>fin\<close> runs whatever \<open>m\<close> did; when \<open>fin\<close>
  itself throws, its error replaces the completion of \<open>m\<close>.\<close>

definition tryFinally :: "'a prog \<Rightarrow> unit prog \<Rightarrow> 'a prog" where
  "tryFinally m fin s =
     (case m s of (r, s') \<Rightarrow>
        (case fin s' of (Inl e, s'') \<Rightarrow> (Inl e, s'') | (Inr _, s'') \<Rightarrow> (r, s'')))"

definition info :: "string \<Rightarrow> unit prog" where
  "info msg s = (Inr (), emit (Info msg) s)"

text \<open>An external call that resolves or rejects.\<close>

definition ext :: "env \<Rightarrow> call \<Rightarrow> unit prog" where
  "ext env c s =
     (let ok = succeeds env (trace s) c
      in (if ok then Inr () else Inl (Rejected c), emit (Did c ok) s))"

definition readFile :: "env \<Rightarrow> string \<Rightarrow> string prog" where
  "readFile env p s =
     (case read_file env (trace s) p of
        None \<Rightarrow> (Inl (Rejected (ReadFile p)), emit (Did (ReadFile p) False) s)
      | Some c \<Rightarrow> (Inr c, emit (Did (ReadFile p) True) s))"

definition readdir :: "env \<Rightarrow> string \<Rightarrow> string list prog" where
  "readdir env p s =
     (case read_dir env (trace s) p of
        None \<Rightarrow> (Inl (Rejected (Readdir p)), emit (Did (Readdir p) False) s)
      | Some fs \<Rightarrow> (Inr fs, emit (Did (Readdir p) True) s))"

definition getSecret :: "env \<Rightarrow> string \<Rightarrow> string prog" where
  "getSecret env name s =
     (case get_secret env (trace s) name of
        None \<Rightarrow> (Inl (Rejected (GetSecret name)), emit (Did (GetSecret name) False) s)
      | Some v \<Rightarrow> (Inr v, emit (Did (GetSecret name) True) s))"

definition writeFile :: "env \<Rightarrow> string \<Rightarrow> string \<Rightarrow> unit prog" where
  "writeFile env p c = ext env (WriteFile p c)"

definition mkdir :: "env \<Rightarrow> string \<Rightarrow> unit prog" where
  "mkdir env p = ext env (Mkdir p)"

definition rimraf :: "env \<Rightarrow> string \<Rightarrow> unit prog" where
  "rimraf env p = ext env (Rimraf p)"

definition spawn :: "env \<Rightarrow> string \<Rightarrow> string option list \<Rightarrow> string option \<Rightarrow> unit prog" where
  "spawn env cmd args cwd = ext env (Spawn cmd args cwd)"

subsection \<open>Strings and paths\<close>

definition LF :: char where
  "LF = CHR 0x0A"

definition CR :: char where
  "CR = CHR 0x0D"

definition startsWith :: "string \<Rightarrow> string \<Rightarrow> bool" where
  "startsWith s p = (take (length p) s = p)"

definition endsWith :: "string \<Rightarrow> string \<Rightarrow> bool" where
  "endsWith s p = (length p \<le> length s \<and> drop (length s - length p) s = p)"

text \<open>\<open>xs.join(sep)\<close>\<close>

fun join :: "string \<Rightarrow> string list \<Rightarrow> string" where
  "join sep [] = []"
| "join sep [x] = x"
| "join sep (x # y # ys) = x @ sep @ join sep (y # ys)"

text \<open>\<open>path.join\<close> on segments that are already normalised (no empty, \<open>.\<close> or
  \<open>..\<close> segment, no doubled separator): the segments joined by \<open>/\<close>.\<close>

definition path_join :: "string list \<Rightarrow> string" where
  "path_join segs = join ''/'' segs"

text \<open>\<open>s.split(sep)\<close> for a separator string: the pieces between the occurrences of
  \<open>sep\<close>, found left to right; an empty separator splits into single characters.
  \<open>cur\<close> is the current piece, reversed.\<close>

function split_from :: "string \<Rightarrow> string \<Rightarrow> string \<Rightarrow> string list" where
  "split_from sep cur [] = [rev cur]"
| "split_from sep cur (c # cs) =
     (if sep \<noteq> [] \<and> take (length sep) (c # cs) = sep
      then rev cur # split_from sep [] (drop (length sep) (c # cs))
      else split_from sep (c # cur) cs)"
  by pat_completeness auto
termination
  by (relation "measure (\<lambda>(sep, cur, s). length s)") auto

definition split :: "string \<Rightarrow> string \<Rightarrow> string list" where
  "split s sep = (if sep = [] then map (\<lambda>c. [c]) s else split_from sep [] s)"

text \<open>\<open>xs[i]\<close>: \<open>undefined\<close> out of range.\<close>

definition at_index :: "'a list \<Rightarrow> nat \<Rightarrow> 'a option" where
  "at_index xs i = (if i < length xs then Some (xs ! i) else None)"

text \<open>String conversion of a value, as \<open>'...' + v\<close> performs it.\<close>

definition js_string_of :: "env \<Rightarrow> json option \<Rightarrow> string" where
  "js_string_of env v = (case v of Some (JStr s) \<Rightarrow> s | _ \<Rightarrow> to_string env v)"

text \<open>Property read \<open>v.k\<close> on a parsed value: a TypeError on \<open>null\<close>, the member of an
  object, \<open>undefined\<close> otherwise (the keys read here are no built-in property).\<close>

fun js_get :: "json \<Rightarrow> string \<Rightarrow> err + json option" where
  "js_get JNull k = Inl (TypeError k)"
| "js_get (JObj kvs) k = Inr (map_of kvs k)"
| "js_get v k = Inr None"

subsection \<open>Module constants\<close>

definition TYPES :: "string list" where
  "TYPES = [''win64'', ''mac'', ''linux'']"

definition DESKTOP_GIT_REPO :: string where
  "DESKTOP_GIT_REPO = ''https://github.com/vector-im/riot-desktop.git''"

definition ELECTRON_BUILDER_CFG_FILE :: string where
  "ELECTRON_BUILDER_CFG_FILE = ''electron-builder.json''"

subsection \<open>Module functions\<close>

definition setDebVersion :: "env \<Rightarrow> json option \<Rightarrow> string \<Rightarrow> string \<Rightarrow> unit prog" where
  "setDebVersion env ver templateFile outFile =
     bnd (readFile env templateFile) (\<lambda>contents.
       andThen (writeFile env outFile (contents @ ''Version: '' @ js_string_of env ver @ [LF]))
         (info (''Version set to '' @ js_string_of env ver)))"

text \<open>The loop of \<open>getMatchingFilesInDir\<close>: \<open>ret\<close> grows at its end.\<close>

fun matching_loop :: "regexp \<Rightarrow> string list \<Rightarrow> string list \<Rightarrow> string list" where
  "matching_loop exp [] ret = ret"
| "matching_loop exp (f # fs) ret =
     matching_loop exp fs (if test exp f then ret @ [f] else ret)"

definition getMatchingFilesInDir :: "env \<Rightarrow> string \<Rightarrow> regexp \<Rightarrow> string list prog" where
  "getMatchingFilesInDir env dir exp =
     bnd (readdir env dir) (\<lambda>listing.
       let ret = matching_loop exp listing []
       in if length ret = 0
          then throw (NoFilesFound (''No files found matching '' @ source exp @ ''!''))
          else resolve ret)"

fun targets_loop :: "string list \<Rightarrow> string option list \<Rightarrow> string option list" where
  "targets_loop [] ret = ret"
| "targets_loop (line # lines) ret =
     targets_loop lines
       (if startsWith line ''Codename'' then ret @ [at_index (split line '': '') 1] else ret)"

definition getRepoTargets :: "env \<Rightarrow> string \<Rightarrow> string option list prog" where
  "getRepoTargets env repoDir =
     bnd (readFile env (path_join [repoDir, ''conf'', ''distributions''])) (\<lambda>confDistributions.
       resolve (targets_loop (split confDistributions [LF]) []))"

text \<open>\<open>pullDebDatabase\<close> hands the two paths to \<open>logger.info\<close> after the message; the
  event keeps the message.\<close>

definition pullDebDatabase :: "env \<Rightarrow> string \<Rightarrow> string \<Rightarrow> unit prog" where
  "pullDebDatabase env debDir rsyncRoot =
     andThen (info ''Pulling debian database...'')
       (spawn env ''rsync'' (map Some [''-av'', ''--delete'', rsyncRoot @ ''debian/'', debDir]) None)"

definition pushDebDatabase :: "env \<Rightarrow> string \<Rightarrow> string \<Rightarrow> unit prog" where
  "pushDebDatabase env debDir rsyncRoot =
     andThen (info ''Pushing debian database...'')
       (spawn env ''rsync'' (map Some [''-av'', ''--delete'', debDir @ ''/'', rsyncRoot @ ''debian'']) None)"

text \<open>An \<open>undefined\<close> target prints as the empty string in \<open>targets.join\<close> and is
  handed to \<open>spawn\<close> as it is.\<close>

definition addDeb :: "env \<Rightarrow> string \<Rightarrow> string \<Rightarrow> unit prog" where
  "addDeb env debDir deb =
     bnd (getRepoTargets env debDir) (\<lambda>targets.
       andThen
         (info (''Adding '' @ deb @ '' for ''
                @ join '', '' (map (\<lambda>t. case t of None \<Rightarrow> [] | Some x \<Rightarrow> x) targets) @ ''...''))
         (for_of targets (\<lambda>target.
            spawn env ''reprepro'' [Some ''includedeb'', target, Some deb] (Some debDir))))"

definition pullArtifacts :: "env \<Rightarrow> string \<Rightarrow> string \<Rightarrow> unit prog" where
  "pullArtifacts env pubDir rsyncRoot =
     andThen (info ''Pulling artifacts...'')
       (spawn env ''rsync''
          (map Some [''-av'', ''--delete'', rsyncRoot @ ''packages.riot.im/'', pubDir]) None)"

text \<open>The only call whose destination is the remote published tree.\<close>

definition pushArtifacts :: "env \<Rightarrow> string \<Rightarrow> string \<Rightarrow> unit prog" where
  "pushArtifacts env pubDir rsyncRoot =
     andThen (info ''Uploading artifacts...'')
       (\<lambda>s. case spawn env ''rsync''
                  (map Some [''-av'', ''--delete'', ''--delay-updates'', pubDir @ ''/'',
                             rsyncRoot @ ''packages.riot.im'']) None s of
               (r, s') \<Rightarrow> (r, s'\<lparr>remote := push_result env (trace s') (remote s')\<rparr>))"

definition copyAndLog :: "env \<Rightarrow> string \<Rightarrow> string \<Rightarrow> unit prog" where
  "copyAndLog env src dest =
     andThen (info (''Copy '' @ src @ '' -> '' @ dest)) (ext env (CopyFile src dest))"

subsection \<open>The class DesktopReleaseBuilder\<close>

text \<open>The fields the constructor sets and nothing changes afterwards; \<open>cwd\<close> is
  \<open>process.cwd()\<close>, which the program never changes.\<close>

record builder =
  winVmName :: string
  winUsername :: string
  winPassword :: string
  rsyncRoot :: string
  desktopBranch :: string
  pubDir :: string
  debDir :: string
  appPubDir :: string
  cwd :: string

definition DesktopReleaseBuilder ::
  "string \<Rightarrow> string \<Rightarrow> string \<Rightarrow> string \<Rightarrow> string \<Rightarrow> string \<Rightarrow> builder" where
  "DesktopReleaseBuilder dir vmName username password root branch =
     \<lparr>winVmName = vmName, winUsername = username, winPassword = password, rsyncRoot = root,
      desktopBranch = branch,
      pubDir = path_join [dir, ''packages.riot.im''],
      debDir = path_join [dir, ''debian''],
      appPubDir = path_join [path_join [dir, ''packages.riot.im''], ''desktop''],
      cwd = dir\<rparr>"

text \<open>\<open>Object.assign(target, source)\<close> as \<open>JSON.stringify(target)\<close> sees it afterwards:
  a TypeError on \<open>undefined\<close> and \<open>null\<close>; on an object each source property
  overwrites the property of that name or is added at the end; a primitive or an array is
  printed as it was.\<close>

definition object_assign :: "json option \<Rightarrow> (string \<times> json) list \<Rightarrow> err + json" where
  "object_assign target src =
     (case target of
        None \<Rightarrow> Inl (TypeError ''Cannot convert undefined or null to object'')
      | Some JNull \<Rightarrow> Inl (TypeError ''Cannot convert undefined or null to object'')
      | Some (JObj kvs) \<Rightarrow> Inr (JObj (fold (\<lambda>(k, v). AList.update k v) src kvs))
      | Some v \<Rightarrow> Inr v)"

text \<open>An object literal as \<open>JSON.stringify\<close> prints it: a property whose value is
  \<open>undefined\<close> is left out.\<close>

definition object_literal :: "(string \<times> json option) list \<Rightarrow> json" where
  "object_literal props = JObj (concat (map (\<lambda>(k, v). case v of None \<Rightarrow> [] | Some x \<Rightarrow> [(k, x)]) props))"

text \<open>\<open>JSON.parse(await fsProm.readFile(p))\<close>\<close>

definition readJson :: "env \<Rightarrow> string \<Rightarrow> json prog" where
  "readJson env p =
     bnd (readFile env p) (\<lambda>text.
       case json_parse env text of None \<Rightarrow> throw (SyntaxError text) | Some v \<Rightarrow> resolve v)"

text \<open>The object that \<open>writeElectronBuilderConfigFile\<close> builds from the parsed
  \<open>package.json\<close> and then prints.\<close>

definition electronBuilderConfig :: "string \<Rightarrow> json \<Rightarrow> err + json" where
  "electronBuilderConfig type pkg =
     (case js_get pkg ''build'' of
        Inl e \<Rightarrow> Inl e
      | Inr cfg \<Rightarrow>
          (case (if type = ''linux'' then Inr (Some (JStr ''Element'')) else js_get pkg ''productName'') of
             Inl e \<Rightarrow> Inl e
           | Inr productName \<Rightarrow>
               object_assign cfg
                 [(''extraMetadata'', object_literal [(''productName'', productName)]),
                  (''deb'', JObj [(''fpm'', JArr [JStr ''--deb-custom-control=debcontrol''])])]))"

definition writeElectronBuilderConfigFile ::
  "env \<Rightarrow> string \<Rightarrow> string \<Rightarrow> json option \<Rightarrow> unit prog" where
  "writeElectronBuilderConfigFile env type repoDir buildVersion =
     bnd (readJson env (path_join [repoDir, ''package.json''])) (\<lambda>pkg.
       case electronBuilderConfig type pkg of
         Inl e \<Rightarrow> throw e
       | Inr cfg \<Rightarrow>
           writeFile env (path_join [repoDir, ELECTRON_BUILDER_CFG_FILE]) (json_stringify env cfg))"

text \<open>The regular expression literals of the file. In \<open>/-mac.zip$/\<close> the dot is not
  escaped: it stands for any character but a line terminator.\<close>

definition BS :: char where
  "BS = CHR 0x5C"

definition re_dmg :: regexp where
  "re_dmg = \<lparr>source = ''/'' @ [BS] @ ''.dmg$/'', test = (\<lambda>f. endsWith f ''.dmg'')\<rparr>"

definition re_mac_zip :: regexp where
  "re_mac_zip =
     \<lparr>source = ''/-mac.zip$/'',
      test = (\<lambda>f. 8 \<le> length f \<and>
                (let t = drop (length f - 8) f
                 in take 4 t = ''-mac'' \<and> t ! 4 \<noteq> LF \<and> t ! 4 \<noteq> CR \<and> drop 5 t = ''zip''))\<rparr>"

definition re_deb :: regexp where
  "re_deb = \<lparr>source = ''/'' @ [BS] @ ''.deb$/'', test = (\<lambda>f. endsWith f ''.deb'')\<rparr>"

definition re_exe :: regexp where
  "re_exe = \<lparr>source = ''/'' @ [BS] @ ''.exe$/'', test = (\<lambda>f. endsWith f ''.exe'')\<rparr>"

definition re_nupkg :: regexp where
  "re_nupkg = \<lparr>source = ''/'' @ [BS] @ ''.nupkg$/'', test = (\<lambda>f. endsWith f ''.nupkg'')\<rparr>"

definition re_RELEASES :: regexp where
  "re_RELEASES = \<lparr>source = ''/^RELEASES$/'', test = (\<lambda>f. f = ''RELEASES'')\<rparr>"

text \<open>\<open>JSON.parse(await fsProm.readFile(path.join(repoDir, 'package.json'))).version\<close>\<close>

definition readBuildVersion :: "env \<Rightarrow> string \<Rightarrow> json option prog" where
  "readBuildVersion env repoDir =
     bnd (readJson env (path_join [repoDir, ''package.json''])) (\<lambda>pkg.
       case js_get pkg ''version'' of Inl e \<Rightarrow> throw e | Inr v \<Rightarrow> resolve v)"

definition makeMacRunner :: "string \<Rightarrow> runner" where
  "makeMacRunner dir = Runner dir"

definition makeLinuxRunner :: "string \<Rightarrow> runner" where
  "makeLinuxRunner dir = DockerRunner dir (path_join [''scripts'', ''in-docker.sh''])"

text \<open>The runner is \<open>undefined\<close> for a type the \<open>switch\<close> of \<open>buildLocal\<close> does not
  list; the first \<open>runner.run\<close> then throws a TypeError.\<close>

definition buildWithRunner :: "env \<Rightarrow> runner option \<Rightarrow> json option \<Rightarrow> string \<Rightarrow> unit prog" where
  "buildWithRunner env runner buildVersion type =
     (case runner of
        None \<Rightarrow> throw (TypeError ''run'')
      | Some r \<Rightarrow>
          steps
            [ext env (Run r [''yarn'', ''install'']),
             ext env (Run r [''yarn'', ''run'', ''hak'', ''check'']),
             ext env (Run r [''yarn'', ''run'', ''build:native'']),
             ext env (Run r [''yarn'', ''run'', ''fetch'', ''-d'', ''element.io/release'']),
             ext env (Run r [''yarn'', ''build'', ''--config'', ELECTRON_BUILDER_CFG_FILE])])"

text \<open>The loop of \<open>buildLocal\<close> over the built \<open>.deb\<close> files:
  \<open>for (const f of ...) { await addDeb(this.debDir, path.resolve(repoDir, 'dist', f)) }\<close>.
  \<open>repoDir\<close> is a relative path, so \<open>path.resolve\<close> puts \<open>process.cwd()\<close> before it.\<close>

definition buildLocal_debs :: "env \<Rightarrow> builder \<Rightarrow> string \<Rightarrow> string list \<Rightarrow> unit prog" where
  "buildLocal_debs env b repoDir fs =
     for_of fs (\<lambda>f. addDeb env (debDir b) (path_join [cwd b, repoDir, ''dist'', f]))"

definition buildLocal :: "env \<Rightarrow> builder \<Rightarrow> string \<Rightarrow> unit prog" where
  "buildLocal env b type =
     andThen (mkdir env ''builds'')
       (let repoDir = path_join [''builds'', ''element-desktop-'' @ type @ ''-'' @ desktopBranch b]
        in steps
          [rimraf env repoDir,
           info (''Cloning element-desktop into '' @ repoDir),
           ext env (GitClone repoDir [DESKTOP_GIT_REPO, repoDir, ''-b'', desktopBranch b]),
           info (''...checked out '' @ [CHR 0x27] @ desktopBranch b @ [CHR 0x27]
                 @ '' branch, starting build for '' @ type),
           bnd (readBuildVersion env repoDir) (\<lambda>buildVersion.
             steps
               [writeElectronBuilderConfigFile env type repoDir buildVersion,
                (if type = ''linux''
                 then setDebVersion env buildVersion
                        (path_join [repoDir, ''element.io'', ''release'', ''control.template''])
                        (path_join [repoDir, ''debcontrol''])
                 else resolve ()),
                (let runner =
                       (if type = ''mac'' then Some (makeMacRunner repoDir)
                        else if type = ''linux'' then Some (makeLinuxRunner repoDir)
                        else None)
                 in buildWithRunner env runner buildVersion type),
                info ''Build completed!'',
                (if type = ''mac'' then
                   steps
                     [mkdir env (path_join [appPubDir b, ''install'', ''macos'']),
                      mkdir env (path_join [appPubDir b, ''update'', ''macos'']),
                      bnd (getMatchingFilesInDir env (path_join [repoDir, ''dist'']) re_dmg)
                        (\<lambda>fs. for_of fs (\<lambda>f.
                           copyAndLog env (path_join [repoDir, ''dist'', f])
                             (path_join [appPubDir b, ''install'', ''macos'', f]))),
                      bnd (getMatchingFilesInDir env (path_join [repoDir, ''dist'']) re_mac_zip)
                        (\<lambda>fs. for_of fs (\<lambda>f.
                           copyAndLog env (path_join [repoDir, ''dist'', f])
                             (path_join [appPubDir b, ''update'', ''macos'', f]))),
                      (let latestPath = path_join [appPubDir b, ''update'', ''macos'', ''latest'']
                       in andThen
                            (info (''Write '' @ js_string_of env buildVersion @ '' -> '' @ latestPath))
                            (writeFile env latestPath (js_string_of env buildVersion)))]
                 else if type = ''linux'' then
                   steps
                     [pullDebDatabase env (debDir b) (rsyncRoot b),
                      bnd (getMatchingFilesInDir env (path_join [repoDir, ''dist'']) re_deb)
                        (buildLocal_debs env b repoDir),
                      pushDebDatabase env (debDir b) (rsyncRoot b)]
                 else resolve ()),
                info ''Removing build dir'',
                rimraf env repoDir])])"

text \<open>The statements of \<open>buildWin\<close> inside its \<open>try\<close>.\<close>

definition buildWin_guarded ::
  "env \<Rightarrow> builder \<Rightarrow> string \<Rightarrow> winbuilder \<Rightarrow> string \<Rightarrow> string \<Rightarrow> unit prog" where
  "buildWin_guarded env b type wb buildDirName repoDir =
     (let electronBuilderArchFlag = (if type = ''win64'' then ''--x64'' else ''--ia32'');
          squirrelDir = ''squirrel-windows'' @ (if type = ''win32'' then ''-ia32'' else []);
          archDir = (if type = ''win32'' then ''ia32'' else ''x64'')
      in steps
        [ext env (WinAppendScript wb [''rd'', buildDirName, ''/s'', ''/q'']),
         ext env (WinAppendScript wb
                    [''git'', ''clone'', DESKTOP_GIT_REPO, buildDirName, ''-b'', desktopBranch b]),
         ext env (WinAppendScript wb [''cd'', buildDirName]),
         ext env (WinAppendScript wb
                    [''copy'', ''z:'' @ [BS] @ ELECTRON_BUILDER_CFG_FILE, ELECTRON_BUILDER_CFG_FILE]),
         ext env (WinAppendScript wb [''call'', ''yarn'', ''install'']),
         ext env (WinAppendScript wb [''call'', ''yarn'', ''run'', ''hak'', ''check'']),
         ext env (WinAppendScript wb [''call'', ''yarn'', ''run'', ''build:native'']),
         ext env (WinAppendScript wb
                    [''call'', ''yarn'', ''run'', ''fetch'', ''-d'', ''element.io'' @ [BS] @ ''release'']),
         ext env (WinAppendScript wb
                    [''call'', ''yarn'', ''build'', electronBuilderArchFlag, ''--config'',
                     ELECTRON_BUILDER_CFG_FILE]),
         ext env (WinAppendScript wb [''xcopy dist z:'' @ [BS] @ ''dist /S /I /Y'']),
         ext env (WinAppendScript wb [''cd'', ''..'']),
         ext env (WinAppendScript wb [''rd'', buildDirName, ''/s'', ''/q'']),
         info ''Starting build...'',
         ext env (WinRunScript wb),
         info ''Build complete!'',
         mkdir env (path_join [appPubDir b, ''install'', ''win32'', archDir]),
         mkdir env (path_join [appPubDir b, ''update'', ''win32'', archDir]),
         bnd (getMatchingFilesInDir env (path_join [repoDir, ''dist'', squirrelDir]) re_exe)
           (\<lambda>fs. for_of fs (\<lambda>f.
              copyAndLog env (path_join [repoDir, ''dist'', squirrelDir, f])
                (path_join [appPubDir b, ''install'', ''win32'', archDir, f]))),
         bnd (getMatchingFilesInDir env (path_join [repoDir, ''dist'', squirrelDir]) re_nupkg)
           (\<lambda>fs. for_of fs (\<lambda>f.
              copyAndLog env (path_join [repoDir, ''dist'', squirrelDir, f])
                (path_join [appPubDir b, ''update'', ''win32'', archDir, f]))),
         bnd (getMatchingFilesInDir env (path_join [repoDir, ''dist'', squirrelDir]) re_RELEASES)
           (\<lambda>fs. for_of fs (\<lambda>f.
              copyAndLog env (path_join [repoDir, ''dist'', squirrelDir, f])
                (path_join [appPubDir b, ''update'', ''win32'', archDir, f])))])"

text \<open>The statements of \<open>buildWin\<close> from the start of the builder on.\<close>

definition buildWin_started ::
  "env \<Rightarrow> builder \<Rightarrow> string \<Rightarrow> winbuilder \<Rightarrow> string \<Rightarrow> string \<Rightarrow> unit prog" where
  "buildWin_started env b type wb buildDirName repoDir =
     steps
       [info (''Starting Windows builder for '' @ type @ ''...''),
        ext env (WinStart wb),
        info ''...builder started'',
        tryFinally (buildWin_guarded env b type wb buildDirName repoDir) (ext env (WinStop wb)),
        info ''Removing build dir'',
        rimraf env repoDir]"

definition buildWin :: "env \<Rightarrow> builder \<Rightarrow> string \<Rightarrow> unit prog" where
  "buildWin env b type =
     andThen (mkdir env ''builds'')
       (let buildDirName = ''element-desktop-'' @ type @ ''-'' @ desktopBranch b;
            repoDir = path_join [''builds'', buildDirName]
        in steps
          [rimraf env repoDir,
           info (''Cloning element-desktop into '' @ repoDir),
           ext env (GitClone repoDir [DESKTOP_GIT_REPO, repoDir, ''-b'', desktopBranch b]),
           info (''...checked out '' @ [CHR 0x27] @ desktopBranch b @ [CHR 0x27]
                 @ '' branch, starting build for '' @ type),
           bnd (readBuildVersion env repoDir) (\<lambda>buildVersion.
             andThen (writeElectronBuilderConfigFile env type repoDir buildVersion)
               (\<lambda>s. buildWin_started env b type
                       (WindowsBuilder repoDir type (winVmName b) (winUsername b) (winPassword b)
                          (riotSigningKeyContainer s))
                       buildDirName repoDir s))])"

definition build :: "env \<Rightarrow> builder \<Rightarrow> string \<Rightarrow> unit prog" where
  "build env b type = (if startsWith type ''win'' then buildWin env b type else buildLocal env b type)"

text \<open>The \<open>for\<close> loop of \<open>start\<close> with its \<open>try\<close>/\<open>catch\<close>: \<open>True\<close> when the loop
  ran to its end, \<open>False\<close> when the \<open>catch\<close> block returned from \<open>start\<close>.\<close>

fun build_loop :: "env \<Rightarrow> builder \<Rightarrow> string list \<Rightarrow> state \<Rightarrow> bool \<times> state" where
  "build_loop env b [] s = (True, s)"
| "build_loop env b (type # rest) s =
     (case andThen (info (''Starting build of '' @ type @ '' for '' @ desktopBranch b))
             (build env b type) s of
        (Inl e, s') \<Rightarrow> (False, emit (Error ''Build failed!'' e) s')
      | (Inr _, s') \<Rightarrow> build_loop env b rest s')"

definition assign_building :: "bool \<Rightarrow> unit prog" where
  "assign_building v s = (Inr (), emit (SetBuilding v) (s\<lparr>building := v\<rparr>))"

text \<open>The statements of \<open>start\<close> inside its \<open>try\<close>.\<close>

definition start_guarded :: "env \<Rightarrow> builder \<Rightarrow> string list \<Rightarrow> unit prog" where
  "start_guarded env b toBuild =
     steps
       [assign_building True,
        pullArtifacts env (pubDir b) (rsyncRoot b),
        (\<lambda>s. case build_loop env b toBuild s of
                (False, s') \<Rightarrow> (Inr (), s')
              | (True, s') \<Rightarrow>
                  steps
                    [info (''Built packages for: '' @ join '', '' toBuild @ '': pushing packages...''),
                     pushArtifacts env (pubDir b) (rsyncRoot b),
                     info ''...push complete!''] s')]"

definition start :: "env \<Rightarrow> builder \<Rightarrow> unit prog" where
  "start env b =
     steps
       [info (''Starting Element Desktop '' @ desktopBranch b @ '' release builder...''),
        assign_building False,
        bnd (getSecret env ''riot_key_container'') (\<lambda>key s.
          (let s1 = s\<lparr>riotSigningKeyContainer := Some key\<rparr>
           in if building s1 then (Inr (), s1)
              else (let toBuild = TYPES
                    in if length toBuild = 0 then (Inr (), s1)
                       else tryFinally (start_guarded env b toBuild) (assign_building False) s1)))]"

section \<open>Properties of runs\<close>

subsection \<open>Events of interest\<close>

text \<open>The log line that opens the build of one platform in the loop of \<open>start\<close>, and the
  line its \<open>catch\<close> block logs.\<close>

definition is_build_start :: "event \<Rightarrow> bool" where
  "is_build_start e = (case e of Info m \<Rightarrow> startsWith m ''Starting build of '' | _ \<Rightarrow> False)"

definition build_start :: "builder \<Rightarrow> string \<Rightarrow> event" where
  "build_start b t = Info (''Starting build of '' @ t @ '' for '' @ desktopBranch b)"

definition is_build_failed :: "event \<Rightarrow> bool" where
  "is_build_failed e = (case e of Error m x \<Rightarrow> m = ''Build failed!'' | _ \<Rightarrow> False)"

text \<open>The \<open>rsync\<close> calls of \<open>pushArtifacts\<close> and \<open>pullArtifacts\<close>, with the arguments the
  source passes.\<close>

definition push_call :: "builder \<Rightarrow> call" where
  "push_call b = Spawn ''rsync''
     (map Some [''-av'', ''--delete'', ''--delay-updates'', pubDir b @ ''/'',
                rsyncRoot b @ ''packages.riot.im'']) None"

definition pull_call :: "builder \<Rightarrow> call" where
  "pull_call b = Spawn ''rsync''
     (map Some [''-av'', ''--delete'', rsyncRoot b @ ''packages.riot.im/'', pubDir b]) None"

definition is_push :: "builder \<Rightarrow> event \<Rightarrow> bool" where
  "is_push b e = (case e of Did c ok \<Rightarrow> c = push_call b | _ \<Rightarrow> False)"

text \<open>What a run of \<open>start\<close> logs and calls before its \<open>try\<close> block, in its first two
  statements inside it, and in its last statement.\<close>

definition start_head :: "builder \<Rightarrow> bool \<Rightarrow> event list" where
  "start_head b ok =
     [Info (''Starting Element Desktop '' @ desktopBranch b @ '' release builder...''),
      SetBuilding False,
      Did (GetSecret ''riot_key_container'') ok]"

definition pull_events :: "builder \<Rightarrow> bool \<Rightarrow> event list" where
  "pull_events b ok = [SetBuilding True, Info ''Pulling artifacts...'', Did (pull_call b) ok]"

definition push_events :: "builder \<Rightarrow> string list \<Rightarrow> bool \<Rightarrow> event list" where
  "push_events b ts ok =
     [Info (''Built packages for: '' @ join '', '' ts @ '': pushing packages...''),
      Info ''Uploading artifacts...'',
      Did (push_call b) ok] @ (if ok then [Info ''...push complete!''] else [])"

text \<open>The state of the run that leads from \<open>s\<close> to \<open>s'\<close> at a point between the pull and the
  push, after the events \<open>h\<close>: the flag is set, the key container holds what the run
  put into it, the remote tree is untouched. A build of the loop starts in such a state,
  right after its opening log line.\<close>

definition state_at :: "state \<Rightarrow> state \<Rightarrow> event list \<Rightarrow> state" where
  "state_at s s' h =
     s\<lparr>building := True, riotSigningKeyContainer := riotSigningKeyContainer s', trace := trace s @ h\<rparr>"

subsection \<open>What a part of the program may emit\<close>

text \<open>Calls on a Windows builder, and the calls that are allowed while the builder
  \<open>wb\<close> is running.\<close>

fun win_call :: "call \<Rightarrow> bool" where
  "win_call (WinStart wb) = True"
| "win_call (WinAppendScript wb args) = True"
| "win_call (WinRunScript wb) = True"
| "win_call (WinStop wb) = True"
| "win_call c = False"

fun script_call :: "winbuilder \<Rightarrow> call \<Rightarrow> bool" where
  "script_call wb (WinStart w) = False"
| "script_call wb (WinStop w) = False"
| "script_call wb (WinAppendScript w args) = (w = wb)"
| "script_call wb (WinRunScript w) = (w = wb)"
| "script_call wb c = True"

text \<open>Three sets of events: \<open>plain\<close> events are log lines and calls that neither open a
  platform build, nor push, nor touch a Windows builder; \<open>scripted\<close> events may also
  append to or run the script of \<open>wb\<close>; \<open>quiet\<close> events may be any call but the push.\<close>

definition plain :: "builder \<Rightarrow> event \<Rightarrow> bool" where
  "plain b e = (case e of Info m \<Rightarrow> \<not> startsWith m ''Starting build of ''
                | Did c ok \<Rightarrow> c \<noteq> push_call b \<and> \<not> win_call c | _ \<Rightarrow> False)"

definition scripted :: "builder \<Rightarrow> winbuilder \<Rightarrow> event \<Rightarrow> bool" where
  "scripted b wb e = (case e of Info m \<Rightarrow> \<not> startsWith m ''Starting build of ''
                | Did c ok \<Rightarrow> c \<noteq> push_call b \<and> script_call wb c | _ \<Rightarrow> False)"

definition quiet :: "builder \<Rightarrow> event \<Rightarrow> bool" where
  "quiet b e = (case e of Info m \<Rightarrow> \<not> startsWith m ''Starting build of ''
                | Did c ok \<Rightarrow> c \<noteq> push_call b | _ \<Rightarrow> False)"

text \<open>A part of the program emits \<open>P\<close> when all it does to the state is to append
  events that satisfy \<open>P\<close> to the trace.\<close>

definition emits :: "(event \<Rightarrow> bool) \<Rightarrow> 'a prog \<Rightarrow> bool" where
  "emits P m \<longleftrightarrow> (\<forall>s. \<exists>evs. snd (m s) = s\<lparr>trace := trace s @ evs\<rparr> \<and> list_all P evs)"

subsection \<open>The remote build environment\<close>

text \<open>The remote environment as the calls of a trace leave it: started by a successful
  \<open>start()\<close>, stopped by \<open>stop()\<close>, and \<open>Misused\<close> once a call arrives in a state that
  does not allow it (a second start, a script call or a stop on a builder that is not
  running).\<close>

datatype vm = Stopped | Started winbuilder | Misused

fun vm_step :: "vm \<Rightarrow> event \<Rightarrow> vm" where
  "vm_step v (Did (WinStart wb) ok) =
     (if v = Stopped then (if ok then Started wb else Stopped) else Misused)"
| "vm_step v (Did (WinStop wb) ok) = (if v = Started wb then Stopped else Misused)"
| "vm_step v (Did (WinAppendScript wb args) ok) = (if v = Started wb then Started wb else Misused)"
| "vm_step v (Did (WinRunScript wb) ok) = (if v = Started wb then Started wb else Misused)"
| "vm_step v e = v"

definition vm_after :: "event list \<Rightarrow> vm" where
  "vm_after h = foldl vm_step Stopped h"

text \<open>\<open>moves v m vok verr\<close>: from a trace that leaves the environment in \<open>v\<close>, the part \<open>m\<close>
  leaves it in \<open>vok\<close> when it returns and in \<open>verr\<close> when it throws.\<close>

definition moves :: "vm \<Rightarrow> 'a prog \<Rightarrow> vm \<Rightarrow> vm \<Rightarrow> bool" where
  "moves v m vok verr \<longleftrightarrow>
     (\<forall>s. vm_after (trace s) = v \<longrightarrow>
          vm_after (trace (snd (m s))) = (case fst (m s) of Inr x \<Rightarrow> vok | Inl e \<Rightarrow> verr))"

subsection \<open>Debian ingestion\<close>

text \<open>The \<open>reprepro includedeb\<close> call of \<open>addDeb\<close> for one package and one target, the
  external calls of a trace in order, and the ingestion calls among them.\<close>

definition ingest_call :: "string \<Rightarrow> string \<Rightarrow> string option \<Rightarrow> call" where
  "ingest_call repo deb target =
     Spawn ''reprepro'' [Some ''includedeb'', target, Some deb] (Some repo)"

fun calls :: "event list \<Rightarrow> call list" where
  "calls [] = []"
| "calls (Did c ok # es) = c # calls es"
| "calls (e # es) = calls es"

definition is_reprepro :: "call \<Rightarrow> bool" where
  "is_reprepro c = (case c of Spawn cmd args dir \<Rightarrow> cmd = ''reprepro'' | _ \<Rightarrow> False)"

definition ingestions :: "event list \<Rightarrow> call list" where
  "ingestions evs = filter is_reprepro (calls evs)"

text \<open>One ingestion per package and target: packages in order, and for each package the
  targets in order.\<close>

definition all_ingestions :: "string \<Rightarrow> string list \<Rightarrow> string list \<Rightarrow> call list" where
  "all_ingestions repo debs targets =
     concat (map (\<lambda>deb. map (\<lambda>t. ingest_call repo deb (Some t)) targets) debs)"

text \<open>The ingestion calls of a trace together with their outcome.\<close>

definition is_ingestion :: "event \<Rightarrow> bool" where
  "is_ingestion e = (case e of Did c ok \<Rightarrow> is_reprepro c | _ \<Rightarrow> False)"

definition ingestion_events :: "event list \<Rightarrow> event list" where
  "ingestion_events evs = filter is_ingestion evs"

text \<open>The paths that the loop of \<open>buildLocal\<close> hands to \<open>addDeb\<close> for the files \<open>fs\<close>.\<close>

definition built_debs :: "builder \<Rightarrow> string \<Rightarrow> string list \<Rightarrow> string list" where
  "built_debs b repoDir fs = map (\<lambda>f. path_join [cwd b, repoDir, ''dist'', f]) fs"

subsection \<open>Reading a configuration by paths\<close>

text \<open>The value at a path of member names, when there is one.\<close>

fun at_path :: "string list \<Rightarrow> json \<Rightarrow> json option" where
  "at_path [] v = Some v"
| "at_path (k # ks) (JObj kvs) = (case map_of kvs k of None \<Rightarrow> None | Some v \<Rightarrow> at_path ks v)"
| "at_path (k # ks) v = None"

text \<open>Two paths are comparable when one is a prefix of the other.\<close>

definition comparable :: "string list \<Rightarrow> string list \<Rightarrow> bool" where
  "comparable p q = (take (length p) q = p \<or> take (length q) p = q)"

text \<open>The generated configuration read as a deep override of the \<open>build\<close> section of the
  manifest: \<open>extraMetadata.productName\<close> and \<open>deb.fpm\<close> hold the new values, and every
  path that neither contains nor lies under one of these two holds what the \<open>build\<close>
  section holds there.\<close>

definition config_as_claimed :: "string \<Rightarrow> json \<Rightarrow> json \<Rightarrow> bool" where
  "config_as_claimed type pkg cfg \<longleftrightarrow>
     at_path [''extraMetadata'', ''productName''] cfg =
       (if type = ''linux'' then Some (JStr ''Element'') else at_path [''productName''] pkg)
     \<and> (\<exists>fpm. at_path [''deb'', ''fpm''] cfg = Some (JArr fpm)
              \<and> JStr ''--deb-custom-control=debcontrol'' \<in> set fpm)
     \<and> (\<forall>p. \<not> comparable p [''extraMetadata'', ''productName''] \<and> \<not> comparable p [''deb'', ''fpm'']
            \<longrightarrow> at_path p cfg = at_path (''build'' # p) pkg)"

subsection \<open>Concrete runs\<close>

text \<open>A builder, an initial state, a manifest, two repository configurations and the
  Windows builder that \<open>buildWin\<close> creates for \<open>win64\<close>.\<close>

definition builder0 :: builder where
  "builder0 = DesktopReleaseBuilder ''/srv'' ''vm'' ''user'' ''pw'' ''host:'' ''v1''"

definition state0 :: state where
  "state0 = \<lparr>building = False, riotSigningKeyContainer = None, trace = [],
             remote = [(''desktop/update/macos/latest'', ''0.9'')]\<rparr>"

definition pkg0 :: json where
  "pkg0 = JObj [(''productName'', JStr ''Element''),
                (''version'', JStr ''1.6.0''),
                (''build'', JObj [(''appId'', JStr ''im.riot.app'')])]"

definition pkg_with_deb :: json where
  "pkg_with_deb =
     JObj [(''productName'', JStr ''Element Nightly''),
           (''version'', JStr ''1.6.0''),
           (''build'', JObj [(''appId'', JStr ''im.riot.app''),
                             (''deb'', JObj [(''depends'', JArr [JStr ''libnotify4''])])])]"

definition cfg_with_deb :: json where
  "cfg_with_deb =
     JObj [(''appId'', JStr ''im.riot.app''),
           (''deb'', JObj [(''fpm'', JArr [JStr ''--deb-custom-control=debcontrol''])]),
           (''extraMetadata'', JObj [(''productName'', JStr ''Element Nightly'')])]"

definition conf0 :: string where
  "conf0 = ''Codename: buster'' @ [LF] @ ''Codename: bullseye'' @ [LF]"

definition conf_no_codename :: string where
  "conf_no_codename = ''Origin: Element'' @ [LF] @ ''Label: Element'' @ [LF]"

definition wb0 :: winbuilder where
  "wb0 = WindowsBuilder ''builds/element-desktop-win64-v1'' ''win64'' ''vm'' ''user'' ''pw'' None"

text \<open>An environment in which every call succeeds, and variants of it in which one kind
  of call fails or a file holds something else.\<close>

definition env_ok :: env where
  "env_ok =
     \<lparr>succeeds = (\<lambda>h c. True),
      get_secret = (\<lambda>h name. Some ''key''),
      read_file = (\<lambda>h p. Some conf0),
      read_dir = (\<lambda>h p. Some [''a.dmg'', ''a-mac.zip'', ''a.exe'', ''a.nupkg'', ''RELEASES'', ''a.deb'']),
      push_result = (\<lambda>h t. [(''desktop/update/macos/latest'', ''1.6.0'')]),
      json_parse = (\<lambda>t. Some pkg0),
      json_stringify = (\<lambda>j. ''{}''),
      to_string = (\<lambda>v. ''undefined'')\<rparr>"

definition env_no_secret :: env where
  "env_no_secret = env_ok\<lparr>get_secret := (\<lambda>h name. None)\<rparr>"

definition env_mkdir_fails :: env where
  "env_mkdir_fails = env_ok\<lparr>succeeds := (\<lambda>h c. c \<noteq> Mkdir ''builds'')\<rparr>"

definition env_script_fails :: env where
  "env_script_fails =
     env_ok\<lparr>succeeds := (\<lambda>h c. case c of WinRunScript wb \<Rightarrow> False | _ \<Rightarrow> True)\<rparr>"

definition env_reprepro_fails :: env where
  "env_reprepro_fails = env_ok\<lparr>succeeds := (\<lambda>h c. \<not> is_reprepro c)\<rparr>"

definition env_no_codename :: env where
  "env_no_codename = env_ok\<lparr>read_file := (\<lambda>h p. Some conf_no_codename)\<rparr>"

definition env_template :: env where
  "env_template = env_ok\<lparr>read_file := (\<lambda>h p. Some (''Package: element'' @ [LF]))\<rparr>"

definition env_listing :: env where
  "env_listing = env_ok\<lparr>read_dir := (\<lambda>h p. Some [''a.dmg'', ''b.txt''])\<rparr>"

text \<open>A pattern for names that end in \<open>.appimage\<close>, written as the patterns of the file are.\<close>

definition re_appimage :: regexp where
  "re_appimage = \<lparr>source = ''/'' @ [BS] @ ''.appimage$/'', test = (\<lambda>f. endsWith f ''.appimage'')\<rparr>"

section \<open>Proofs\<close>

subsection \<open>Emitted events\<close>

lemma emitsI:
  assumes "\<And>s. \<exists>evs. snd (m s) = s\<lparr>trace := trace s @ evs\<rparr> \<and> list_all P evs"
  shows "emits P m"
  using assms by (simp add: emits_def)

lemma emitsD:
  assumes "emits P m"
  obtains evs where "snd (m s) = s\<lparr>trace := trace s @ evs\<rparr>" "list_all P evs"
  using assms unfolding emits_def by blast

lemma emits_weaken:
  assumes "emits P m" and "\<And>e. P e \<Longrightarrow> Q e"
  shows "emits Q m"
proof (rule emitsI)
  fix s
  from assms(1) obtain evs where "snd (m s) = s\<lparr>trace := trace s @ evs\<rparr>" "list_all P evs"
    by (rule emitsD)
  with assms(2) show "\<exists>evs. snd (m s) = s\<lparr>trace := trace s @ evs\<rparr> \<and> list_all Q evs"
    by (auto simp: list_all_iff)
qed

lemma emits_resolve: "emits P (resolve x)"
  by (rule emitsI, rule exI [of _ "[]"]) (simp add: resolve_def)

lemma emits_throw: "emits P (throw e)"
  by (rule emitsI, rule exI [of _ "[]"]) (simp add: throw_def)

lemma emits_info: "P (Info msg) \<Longrightarrow> emits P (info msg)"
  by (rule emitsI, rule exI [of _ "[Info msg]"]) (simp add: info_def emit_def)

lemma emits_ext: "P (Did c True) \<Longrightarrow> P (Did c False) \<Longrightarrow> emits P (ext env c)"
proof (rule emitsI)
  fix s
  assume "P (Did c True)" "P (Did c False)"
  then show "\<exists>evs. snd (ext env c s) = s\<lparr>trace := trace s @ evs\<rparr> \<and> list_all P evs"
    by (intro exI [of _ "[Did c (succeeds env (trace s) c)]"])
       (cases "succeeds env (trace s) c"; simp add: ext_def emit_def Let_def)
qed

lemma emits_readFile:
  "P (Did (ReadFile p) True) \<Longrightarrow> P (Did (ReadFile p) False) \<Longrightarrow> emits P (readFile env p)"
proof (rule emitsI)
  fix s
  assume "P (Did (ReadFile p) True)" "P (Did (ReadFile p) False)"
  then show "\<exists>evs. snd (readFile env p s) = s\<lparr>trace := trace s @ evs\<rparr> \<and> list_all P evs"
    by (cases "read_file env (trace s) p")
       (auto simp: readFile_def emit_def intro: exI [of _ "[Did (ReadFile p) b]" for b])
qed

lemma emits_readdir:
  "P (Did (Readdir p) True) \<Longrightarrow> P (Did (Readdir p) False) \<Longrightarrow> emits P (readdir env p)"
proof (rule emitsI)
  fix s
  assume "P (Did (Readdir p) True)" "P (Did (Readdir p) False)"
  then show "\<exists>evs. snd (readdir env p s) = s\<lparr>trace := trace s @ evs\<rparr> \<and> list_all P evs"
    by (cases "read_dir env (trace s) p")
       (auto simp: readdir_def emit_def intro: exI [of _ "[Did (Readdir p) b]" for b])
qed

lemma emits_bnd:
  assumes "emits P m" and "\<And>x. emits P (f x)"
  shows "emits P (bnd m f)"
proof (rule emitsI)
  fix s
  obtain r s1 where ms: "m s = (r, s1)" by (cases "m s")
  from assms(1) obtain evs where "snd (m s) = s\<lparr>trace := trace s @ evs\<rparr>" "list_all P evs"
    by (rule emitsD)
  with ms have m: "s1 = s\<lparr>trace := trace s @ evs\<rparr>" "list_all P evs" by simp_all
  show "\<exists>evs. snd (bnd m f s) = s\<lparr>trace := trace s @ evs\<rparr> \<and> list_all P evs"
  proof (cases r)
    case (Inl e)
    with m ms show ?thesis
      by (intro exI [of _ evs]) (simp add: bnd_def)
  next
    case (Inr x)
    from assms(2) obtain evs' where
      "snd (f x s1) = s1\<lparr>trace := trace s1 @ evs'\<rparr>" "list_all P evs'"
      by (rule emitsD)
    with m ms Inr show ?thesis
      by (intro exI [of _ "evs @ evs'"]) (simp add: bnd_def)
  qed
qed

lemma emits_andThen: "emits P m \<Longrightarrow> emits P n \<Longrightarrow> emits P (andThen m n)"
  by (simp add: andThen_def emits_bnd)

lemma emits_steps_Nil: "emits P (steps [])"
  by (simp add: emits_resolve)

lemma emits_steps_Cons: "emits P m \<Longrightarrow> emits P (steps ms) \<Longrightarrow> emits P (steps (m # ms))"
  by (simp add: emits_andThen)

lemma emits_for_of: "(\<And>x. emits P (body x)) \<Longrightarrow> emits P (for_of xs body)"
  by (induction xs) (simp_all add: emits_resolve emits_andThen)

lemma emits_tryFinally:
  assumes "emits P m" and "emits P fin"
  shows "emits P (tryFinally m fin)"
proof (rule emitsI)
  fix s
  obtain r s1 where ms: "m s = (r, s1)" by (cases "m s")
  obtain r' s2 where fs: "fin s1 = (r', s2)" by (cases "fin s1")
  from assms(1) obtain evs where "snd (m s) = s\<lparr>trace := trace s @ evs\<rparr>" "list_all P evs"
    by (rule emitsD)
  with ms have m: "s1 = s\<lparr>trace := trace s @ evs\<rparr>" "list_all P evs" by simp_all
  from assms(2) obtain evs' where
    "snd (fin s1) = s1\<lparr>trace := trace s1 @ evs'\<rparr>" "list_all P evs'"
    by (rule emitsD)
  with fs have f: "s2 = s1\<lparr>trace := trace s1 @ evs'\<rparr>" "list_all P evs'" by simp_all
  from m f ms fs show "\<exists>evs. snd (tryFinally m fin s) = s\<lparr>trace := trace s @ evs\<rparr> \<and> list_all P evs"
    by (intro exI [of _ "evs @ evs'"]) (cases r'; simp add: tryFinally_def)
qed

lemma emits_if: "emits P m \<Longrightarrow> emits P n \<Longrightarrow> emits P (if c then m else n)"
  by simp

lemma emits_reading: "(\<And>k. emits P (f k)) \<Longrightarrow> emits P (\<lambda>s. f (g s) s)"
  by (simp add: emits_def)

lemmas emits_intros =
  emits_resolve emits_throw emits_bnd emits_andThen emits_steps_Nil emits_steps_Cons
  emits_for_of emits_tryFinally emits_if

lemma plain_simps [simp]:
  "plain b (Info m) \<longleftrightarrow> \<not> startsWith m ''Starting build of ''"
  "plain b (Did c ok) \<longleftrightarrow> c \<noteq> push_call b \<and> \<not> win_call c"
  by (simp_all add: plain_def)

lemma emits_getMatchingFilesInDir: "emits (plain b) (getMatchingFilesInDir env dir exp)"
  unfolding getMatchingFilesInDir_def Let_def
  by (intro emits_intros emits_readdir) (simp_all add: push_call_def)

lemma emits_copyAndLog: "emits (plain b) (copyAndLog env src dest)"
  unfolding copyAndLog_def
  by (intro emits_intros emits_info emits_ext) (simp_all add: push_call_def startsWith_def)

lemma emits_readJson: "emits (plain b) (readJson env p)"
  unfolding readJson_def
  by (intro emits_intros emits_readFile) (simp_all add: push_call_def emits_intros split: option.split)

lemma emits_readBuildVersion: "emits (plain b) (readBuildVersion env repoDir)"
  unfolding readBuildVersion_def
  by (intro emits_intros emits_readJson) (simp_all add: emits_intros split: sum.split)

lemma emits_writeElectronBuilderConfigFile:
  "emits (plain b) (writeElectronBuilderConfigFile env type repoDir v)"
  unfolding writeElectronBuilderConfigFile_def writeFile_def
  by (intro emits_intros emits_readJson)
     (simp_all add: emits_intros emits_ext push_call_def split: sum.split)

lemma emits_setDebVersion: "emits (plain b) (setDebVersion env ver t out)"
  unfolding setDebVersion_def writeFile_def
  by (intro emits_intros emits_readFile emits_ext emits_info) (simp_all add: push_call_def startsWith_def)

lemma emits_getRepoTargets: "emits (plain b) (getRepoTargets env d)"
  unfolding getRepoTargets_def
  by (intro emits_intros emits_readFile) (simp_all add: push_call_def)

lemma emits_addDeb: "emits (plain b) (addDeb env d deb)"
  unfolding addDeb_def spawn_def
  by (intro emits_intros emits_getRepoTargets emits_ext emits_info) (simp_all add: push_call_def startsWith_def)

lemma emits_pullDebDatabase: "emits (plain b) (pullDebDatabase env d r)"
  unfolding pullDebDatabase_def spawn_def
  by (intro emits_intros emits_ext emits_info) (simp_all add: push_call_def startsWith_def)

lemma emits_pushDebDatabase: "emits (plain b) (pushDebDatabase env d r)"
  unfolding pushDebDatabase_def spawn_def
  by (intro emits_intros emits_ext emits_info) (simp_all add: push_call_def startsWith_def)

lemma emits_buildWithRunner: "emits (plain b) (buildWithRunner env runner v type)"
  unfolding buildWithRunner_def
  by (cases runner) (auto intro!: emits_intros emits_ext simp: push_call_def)

lemma emits_buildLocal_debs: "emits (plain b) (buildLocal_debs env b' repoDir fs)"
  unfolding buildLocal_debs_def by (intro emits_for_of emits_addDeb)

lemma emits_buildLocal: "emits (plain b) (buildLocal env b type)"
  unfolding buildLocal_def Let_def mkdir_def rimraf_def writeFile_def
  by (intro emits_intros emits_ext emits_info emits_readBuildVersion
        emits_writeElectronBuilderConfigFile emits_setDebVersion emits_buildWithRunner
        emits_getMatchingFilesInDir emits_copyAndLog emits_buildLocal_debs emits_pullDebDatabase
        emits_pushDebDatabase)
     (simp_all add: push_call_def startsWith_def)

lemma quiet_simps [simp]:
  "quiet b (Info m) \<longleftrightarrow> \<not> startsWith m ''Starting build of ''"
  "quiet b (Did c ok) \<longleftrightarrow> c \<noteq> push_call b"
  "\<not> quiet b (Error m x)"
  "\<not> quiet b (SetBuilding v)"
  by (simp_all add: quiet_def)

lemma scripted_simps [simp]:
  "scripted b wb (Info m) \<longleftrightarrow> \<not> startsWith m ''Starting build of ''"
  "scripted b wb (Did c ok) \<longleftrightarrow> c \<noteq> push_call b \<and> script_call wb c"
  "\<not> scripted b wb (Error m x)"
  "\<not> scripted b wb (SetBuilding v)"
  by (simp_all add: scripted_def)

lemma plain_script_call: "\<not> win_call c \<Longrightarrow> script_call wb c"
  by (cases c) simp_all

lemma plain_scripted: "plain b e \<Longrightarrow> scripted b wb e"
  by (cases e) (auto simp: plain_def scripted_def plain_script_call)

lemma scripted_quiet: "scripted b wb e \<Longrightarrow> quiet b e"
  by (cases e) (auto simp: quiet_def scripted_def)

lemma emits_plain_scripted: "emits (plain b) m \<Longrightarrow> emits (scripted b wb) m"
  by (erule emits_weaken) (rule plain_scripted)

lemma emits_scripted_quiet: "emits (scripted b wb) m \<Longrightarrow> emits (quiet b) m"
  by (erule emits_weaken) (rule scripted_quiet)

lemma emits_plain_quiet: "emits (plain b) m \<Longrightarrow> emits (quiet b) m"
  by (intro emits_scripted_quiet emits_plain_scripted)

lemma emits_buildWin_guarded:
  "emits (scripted b wb) (buildWin_guarded env b type wb buildDirName repoDir)"
  unfolding buildWin_guarded_def Let_def mkdir_def
  by (intro emits_intros emits_ext emits_info
        emits_getMatchingFilesInDir [THEN emits_plain_scripted]
        emits_copyAndLog [THEN emits_plain_scripted])
     (simp_all add: push_call_def startsWith_def)

lemma emits_buildWin_started:
  "emits (quiet b) (buildWin_started env b type wb buildDirName repoDir)"
  unfolding buildWin_started_def rimraf_def
  by (intro emits_intros emits_ext emits_info emits_buildWin_guarded [THEN emits_scripted_quiet])
     (simp_all add: push_call_def startsWith_def)

lemma emits_buildWin_tail:
  "emits (quiet b) (\<lambda>s. buildWin_started env b type (f (riotSigningKeyContainer s)) d r s)"
  by (rule emits_reading [where g = riotSigningKeyContainer]) (rule emits_buildWin_started)

lemma emits_buildWin: "emits (quiet b) (buildWin env b type)"
  unfolding buildWin_def Let_def mkdir_def rimraf_def
  by (intro emits_intros emits_ext emits_info emits_buildWin_tail
        emits_readBuildVersion [THEN emits_plain_quiet]
        emits_writeElectronBuilderConfigFile [THEN emits_plain_quiet])
     (simp_all add: push_call_def startsWith_def)

lemma emits_build: "emits (quiet b) (build env b type)"
  by (simp add: build_def emits_buildWin emits_buildLocal [THEN emits_plain_quiet])

subsection \<open>The remote build environment along a run\<close>

lemma plain_vm_step: "plain b e \<Longrightarrow> vm_step v e = v"
  by (cases "(v, e)" rule: vm_step.cases) (simp_all add: plain_def)

lemma scripted_vm_step: "scripted b wb e \<Longrightarrow> vm_step (Started wb) e = Started wb"
  by (cases "(Started wb, e)" rule: vm_step.cases) (simp_all add: scripted_def)

lemma foldl_vm_fixed: "list_all (\<lambda>e. vm_step v e = v) evs \<Longrightarrow> foldl vm_step v evs = v"
  by (induction evs) simp_all

lemma moves_emits:
  assumes "emits P m" and "\<And>e. P e \<Longrightarrow> vm_step v e = v"
  shows "moves v m v v"
  unfolding moves_def
proof (intro allI impI)
  fix s :: state
  assume v: "vm_after (trace s) = v"
  from assms(1) obtain evs where m: "snd (m s) = s\<lparr>trace := trace s @ evs\<rparr>" "list_all P evs"
    by (rule emitsD)
  from m(2) assms(2) have "list_all (\<lambda>e. vm_step v e = v) evs"
    by (simp add: list_all_iff)
  then have "foldl vm_step v evs = v" by (rule foldl_vm_fixed)
  with v m(1) show "vm_after (trace (snd (m s))) = (case fst (m s) of Inr x \<Rightarrow> v | Inl e \<Rightarrow> v)"
    by (simp add: vm_after_def split: sum.split)
qed

lemma moves_info: "moves v (info msg) v w"
  by (simp add: moves_def info_def emit_def vm_after_def)

lemma moves_WinStart: "moves Stopped (ext env (WinStart wb)) (Started wb) Stopped"
  by (simp add: moves_def ext_def emit_def vm_after_def Let_def)

lemma moves_WinStop: "moves (Started wb) (ext env (WinStop wb)) Stopped Stopped"
  by (simp add: moves_def ext_def emit_def vm_after_def Let_def)

lemma moves_bnd:
  assumes "moves v m v1 verr" and "\<And>x. moves v1 (f x) vok verr"
  shows "moves v (bnd m f) vok verr"
  unfolding moves_def
proof (intro allI impI)
  fix s :: state
  assume v: "vm_after (trace s) = v"
  obtain r s1 where ms: "m s = (r, s1)" by (cases "m s")
  show "vm_after (trace (snd (bnd m f s))) = (case fst (bnd m f s) of Inr x \<Rightarrow> vok | Inl e \<Rightarrow> verr)"
  proof (cases r)
    case (Inl e)
    with assms(1) v ms show ?thesis by (auto simp: moves_def bnd_def)
  next
    case (Inr x)
    with assms(1) v ms have "vm_after (trace s1) = v1" by (auto simp: moves_def)
    with assms(2) [of x] have
      "vm_after (trace (snd (f x s1))) = (case fst (f x s1) of Inr y \<Rightarrow> vok | Inl e \<Rightarrow> verr)"
      by (simp add: moves_def)
    with ms Inr show ?thesis by (simp add: bnd_def)
  qed
qed

lemma moves_andThen: "moves v m v1 verr \<Longrightarrow> moves v1 n vok verr \<Longrightarrow> moves v (andThen m n) vok verr"
  by (simp add: andThen_def moves_bnd)

lemma moves_tryFinally:
  assumes "moves v m v1 v1" and "moves v1 fin v2 v2"
  shows "moves v (tryFinally m fin) v2 v2"
  unfolding moves_def
proof (intro allI impI)
  fix s :: state
  assume v: "vm_after (trace s) = v"
  obtain r s1 where ms: "m s = (r, s1)" by (cases "m s")
  obtain r' s2 where fs: "fin s1 = (r', s2)" by (cases "fin s1")
  from assms(1) v ms have "vm_after (trace s1) = v1"
    by (cases r) (auto simp: moves_def)
  with assms(2) fs have "vm_after (trace s2) = v2"
    by (cases r') (auto simp: moves_def)
  with ms fs show "vm_after (trace (snd (tryFinally m fin s))) =
      (case fst (tryFinally m fin s) of Inr x \<Rightarrow> v2 | Inl e \<Rightarrow> v2)"
    by (cases r') (simp_all add: tryFinally_def split: sum.split)
qed

lemma moves_reading: "(\<And>k. moves v (f k) a c) \<Longrightarrow> moves v (\<lambda>s. f (g s) s) a c"
  by (simp add: moves_def)

lemma moves_plain: "emits (plain b) m \<Longrightarrow> moves v m v v"
  by (erule moves_emits) (rule plain_vm_step)

lemma emits_plain_ext: "c \<noteq> push_call b \<Longrightarrow> \<not> win_call c \<Longrightarrow> emits (plain b) (ext env c)"
  by (rule emits_ext) simp_all

lemma moves_resolve: "moves v (resolve x) v w"
  by (simp add: moves_def resolve_def)

lemma moves_ext_plain:
  "c \<noteq> push_call b \<Longrightarrow> \<not> win_call c \<Longrightarrow> moves v (ext env c) v v"
  by (rule moves_plain [where b = b]) (rule emits_plain_ext)

lemma moves_buildWin_started:
  "moves Stopped (buildWin_started env b type wb buildDirName repoDir) Stopped Stopped"
proof -
  have guarded: "moves (Started wb) (buildWin_guarded env b type wb buildDirName repoDir)
      (Started wb) (Started wb)"
    by (rule moves_emits [OF emits_buildWin_guarded]) (rule scripted_vm_step)
  have guarded_stop: "moves (Started wb)
      (tryFinally (buildWin_guarded env b type wb buildDirName repoDir) (ext env (WinStop wb)))
      Stopped Stopped"
    by (rule moves_tryFinally [OF guarded moves_WinStop])
  have rm: "moves Stopped (rimraf env repoDir) Stopped Stopped"
    unfolding rimraf_def by (rule moves_ext_plain [where b = b]) (simp_all add: push_call_def)
  show ?thesis
    unfolding buildWin_started_def steps.simps
    by (rule moves_andThen moves_info moves_WinStart guarded_stop rm moves_resolve)+
qed

lemma moves_buildWin_tail:
  "moves Stopped (\<lambda>s. buildWin_started env b type (f (riotSigningKeyContainer s)) d r s)
     Stopped Stopped"
  by (rule moves_reading [where g = riotSigningKeyContainer]) (rule moves_buildWin_started)

lemma moves_buildWin: "moves Stopped (buildWin env b type) Stopped Stopped"
proof -
  have ext_plain: "\<And>c. c \<noteq> push_call b \<and> \<not> win_call c
      \<Longrightarrow> moves Stopped (ext env c) Stopped Stopped"
    by (rule moves_ext_plain [where b = b]) simp_all
  show ?thesis
    unfolding buildWin_def Let_def steps.simps mkdir_def rimraf_def
    apply (rule moves_andThen moves_bnd moves_info moves_resolve moves_buildWin_tail
        ext_plain moves_plain [OF emits_readBuildVersion]
        moves_plain [OF emits_writeElectronBuilderConfigFile]
        | simp add: push_call_def)+
    done
qed

lemma vm_misused_absorbs: "foldl vm_step Misused evs = Misused"
proof (induction evs)
  case Nil
  then show ?case by simp
next
  case (Cons e evs)
  have "vm_step Misused e = Misused"
    by (cases "(Misused, e)" rule: vm_step.cases) simp_all
  with Cons show ?case by simp
qed

lemma vm_step_started:
  "vm_step (Started wb) e = Started wb \<or> vm_step (Started wb) e = Misused
   \<or> (\<exists>ok. e = Did (WinStop wb) ok)"
  by (cases "(Started wb, e)" rule: vm_step.cases) auto

lemma vm_started_stopped:
  "foldl vm_step (Started wb) evs = Stopped \<Longrightarrow> \<exists>ok. Did (WinStop wb) ok \<in> set evs"
proof (induction evs)
  case Nil
  then show ?case by simp
next
  case (Cons e evs)
  from vm_step_started [of wb e] show ?case
  proof (elim disjE)
    assume "vm_step (Started wb) e = Started wb"
    with Cons show ?thesis by auto
  next
    assume "vm_step (Started wb) e = Misused"
    with Cons.prems show ?thesis by (simp add: vm_misused_absorbs)
  next
    assume "\<exists>ok. e = Did (WinStop wb) ok"
    then show ?thesis by auto
  qed
qed

lemma vm_start_not_stopped:
  "vm_step v (Did (WinStart wb) True) = Started wb \<or> vm_step v (Did (WinStart wb) True) = Misused"
  by simp

lemma vm_stop_follows_start:
  assumes "vm_after (h @ pre @ Did (WinStart wb) True # post) = Stopped"
  shows "\<exists>ok. Did (WinStop wb) ok \<in> set post"
proof -
  let ?v = "vm_step (foldl vm_step Stopped (h @ pre)) (Did (WinStart wb) True)"
  from assms have fin: "foldl vm_step ?v post = Stopped"
    by (simp add: vm_after_def)
  from vm_start_not_stopped [of "foldl vm_step Stopped (h @ pre)" wb] show ?thesis
  proof
    assume "?v = Started wb"
    with fin show ?thesis by (simp add: vm_started_stopped)
  next
    assume "?v = Misused"
    with fin show ?thesis by (simp add: vm_misused_absorbs)
  qed
qed

subsection \<open>The shape of a run of start\<close>

lemma is_build_start_build_start [simp]: "is_build_start (build_start b t)"
  by (simp add: is_build_start_def build_start_def startsWith_def)

lemma marker_simps [simp]:
  "\<not> is_push b (build_start b' t)"
  "\<not> is_build_failed (build_start b t)"
  "\<not> is_build_start (Error m x)"
  "\<not> is_push b (Error m x)"
  "is_build_failed (Error ''Build failed!'' x)"
  "\<not> is_build_start (SetBuilding v)"
  "\<not> is_push b (SetBuilding v)"
  "\<not> is_build_failed (SetBuilding v)"
  "\<not> is_build_start (Did c ok)"
  "\<not> is_build_failed (Did c ok)"
  "is_push b (Did c ok) \<longleftrightarrow> c = push_call b"
  "\<not> is_push b (Info m)"
  "\<not> is_build_failed (Info m)"
  by (simp_all add: is_push_def is_build_failed_def is_build_start_def build_start_def)

lemma quiet_not_marker: "quiet b e \<Longrightarrow> \<not> is_build_start e \<and> \<not> is_build_failed e \<and> \<not> is_push b e"
  by (cases e) (simp_all add: is_build_start_def is_build_failed_def is_push_def)

lemma quiet_filter:
  "list_all (quiet b) evs \<Longrightarrow>
     filter is_build_start evs = [] \<and> \<not> list_ex is_build_failed evs \<and> \<not> list_ex (is_push b) evs"
  by (induction evs) (auto dest: quiet_not_marker)

lemma build_loop_shape:
  "build_loop env b ts s = (c, s') \<Longrightarrow>
   \<exists>evs k. s' = s\<lparr>trace := trace s @ evs\<rparr> \<and> k \<le> length ts
     \<and> filter is_build_start evs = map (build_start b) (take k ts)
     \<and> \<not> list_ex (is_push b) evs
     \<and> (if c then k = length ts \<and> \<not> list_ex is_build_failed evs
         else 0 < k \<and> (\<exists>pre x. evs = pre @ [Error ''Build failed!'' x]))"
proof (induction ts arbitrary: s)
  case Nil
  then show ?case
    by (intro exI [of _ "[]"] exI [of _ 0]) auto
next
  case (Cons t ts)
  let ?s1 = "emit (build_start b t) s"
  obtain r s2 where run: "build env b t ?s1 = (r, s2)" by (cases "build env b t ?s1")
  from emits_build [of b env t] obtain evs1 where
    "snd (build env b t ?s1) = ?s1\<lparr>trace := trace ?s1 @ evs1\<rparr>" and q: "list_all (quiet b) evs1"
    by (rule emitsD)
  with run have s2: "s2 = s\<lparr>trace := trace s @ build_start b t # evs1\<rparr>"
    by (simp add: emit_def)
  note f = quiet_filter [OF q]
  show ?case
  proof (cases r)
    case (Inl x)
    with Cons.prems run have "c = False" "s' = emit (Error ''Build failed!'' x) s2"
      by (simp_all add: andThen_def bnd_def info_def build_start_def)
    with s2 f show ?thesis
      by (intro exI [of _ "build_start b t # evs1 @ [Error ''Build failed!'' x]"] exI [of _ 1])
         (simp add: emit_def)
  next
    case (Inr u)
    with Cons.prems run have "build_loop env b ts s2 = (c, s')"
      by (simp add: andThen_def bnd_def info_def build_start_def)
    from Cons.IH [OF this] obtain evs k where
      ih: "s' = s2\<lparr>trace := trace s2 @ evs\<rparr>" "k \<le> length ts"
        "filter is_build_start evs = map (build_start b) (take k ts)"
        "\<not> list_ex (is_push b) evs"
        "if c then k = length ts \<and> \<not> list_ex is_build_failed evs
         else 0 < k \<and> (\<exists>pre x. evs = pre @ [Error ''Build failed!'' x])"
      by blast
    show ?thesis
    proof (intro exI [of _ "build_start b t # evs1 @ evs"] exI [of _ "Suc k"] conjI)
      show "s' = s\<lparr>trace := trace s @ build_start b t # evs1 @ evs\<rparr>"
        using ih(1) s2 by simp
      show "Suc k \<le> length (t # ts)" using ih(2) by simp
      show "filter is_build_start (build_start b t # evs1 @ evs)
              = map (build_start b) (take (Suc k) (t # ts))"
        using ih(3) f by simp
      show "\<not> list_ex (is_push b) (build_start b t # evs1 @ evs)"
        using ih(4) f by simp
      show "if c then Suc k = length (t # ts)
                  \<and> \<not> list_ex is_build_failed (build_start b t # evs1 @ evs)
            else 0 < Suc k \<and> (\<exists>pre x. build_start b t # evs1 @ evs = pre @ [Error ''Build failed!'' x])"
      proof (cases c)
        case True
        with ih(5) f show ?thesis by simp
      next
        case False
        with ih(5) obtain pre x where "evs = pre @ [Error ''Build failed!'' x]" by auto
        then have "build_start b t # evs1 @ evs = (build_start b t # evs1 @ pre) @ [Error ''Build failed!'' x]"
          by simp
        with False show ?thesis by (simp only: if_False) blast
      qed
    qed
  qed
qed

lemma build_start_inj [simp]: "build_start b t = build_start b t' \<longleftrightarrow> t = t'"
  by (simp add: build_start_def)

lemma marker_after_prefix:
  assumes "xs @ ys = pre @ e # post" and "filter P xs = []" and "P e"
  shows "\<exists>zs. pre = xs @ zs"
proof -
  from assms(1) consider us where "xs = pre @ us" "us @ ys = e # post"
    | us where "xs @ us = pre" "ys = us @ e # post"
    by (auto simp: append_eq_append_conv2)
  then show ?thesis
  proof cases
    case 1
    show ?thesis
    proof (cases us)
      case Nil
      with 1 show ?thesis by simp
    next
      case (Cons u us')
      with 1 have "e \<in> set xs" by auto
      with assms(2,3) show ?thesis by (auto simp: filter_empty_conv)
    qed
  next
    case 2
    then show ?thesis by auto
  qed
qed

lemma no_marker_inside:
  assumes "filter P evs = []" and "evs = pre @ e # post"
  shows "\<not> P e"
  using assms by (auto simp: filter_empty_conv)

lemma marker_split:
  assumes "pre @ e # post = xs @ ys" and "filter P xs = []" and "P e"
  shows "\<exists>zs. pre = xs @ zs \<and> ys = zs @ e # post"
proof -
  from assms(1) have "xs @ ys = pre @ e # post" by simp
  from marker_after_prefix [OF this assms(2,3)] obtain zs where "pre = xs @ zs" by blast
  with assms(1) show ?thesis by simp
qed

lemma marker_before_suffix:
  assumes "pre @ e # post = xs @ ys" and "filter P ys = []" and "P e"
  shows "\<exists>zs. post = zs @ ys \<and> xs = pre @ e # zs"
proof -
  from assms(1) consider us where "pre = xs @ us" "us @ e # post = ys"
    | us where "pre @ us = xs" "e # post = us @ ys"
    by (auto simp: append_eq_append_conv2)
  then show ?thesis
  proof cases
    case 1
    then have "e \<in> set ys" by auto
    with assms(2,3) show ?thesis by (auto simp: filter_empty_conv)
  next
    case 2
    show ?thesis
    proof (cases us)
      case Nil
      with 2 have "e \<in> set ys" by auto
      with assms(2,3) show ?thesis by (auto simp: filter_empty_conv)
    next
      case (Cons u us')
      with 2 show ?thesis by auto
    qed
  qed
qed

lemma last_marker:
  "filter P xs \<noteq> [] \<Longrightarrow> \<exists>pre e post. xs = pre @ e # post \<and> P e \<and> filter P post = []"
proof (induction xs rule: rev_induct)
  case Nil
  then show ?case by simp
next
  case (snoc x xs)
  show ?case
  proof (cases "P x")
    case True
    then show ?thesis by (intro exI [of _ xs] exI [of _ x] exI [of _ "[]"]) simp
  next
    case False
    with snoc.prems have "filter P xs \<noteq> []" by simp
    from snoc.IH [OF this] obtain pre e post where
      "xs = pre @ e # post" "P e" "filter P post = []" by blast
    with False show ?thesis
      by (intro exI [of _ pre] exI [of _ e] exI [of _ "post @ [x]"]) simp
  qed
qed

lemma build_loop_outcomes:
  assumes "build_loop env b ts s = (c, s')"
    and "trace s' = trace s @ pre @ build_start b t # post"
  shows "case build env b t (s\<lparr>trace := trace s @ pre @ [build_start b t]\<rparr>) of
           (Inl e, s'') \<Rightarrow>
              \<not> c \<and> s' = emit (Error ''Build failed!'' e) s'' \<and> filter is_build_start post = []
         | (Inr u, s'') \<Rightarrow>
              (\<exists>rest. s' = s''\<lparr>trace := trace s'' @ rest\<rparr>) \<and> (filter is_build_start post = [] \<longrightarrow> c)"
  using assms
proof (induction ts arbitrary: s pre)
  case Nil
  then show ?case by simp
next
  case (Cons t0 ts)
  let ?s1 = "emit (build_start b t0) s"
  obtain r s2 where run: "build env b t0 ?s1 = (r, s2)" by (cases "build env b t0 ?s1")
  from emits_build [of b env t0] obtain evs1 where
    "snd (build env b t0 ?s1) = ?s1\<lparr>trace := trace ?s1 @ evs1\<rparr>" and q: "list_all (quiet b) evs1"
    by (rule emitsD)
  with run have s2: "s2 = s\<lparr>trace := trace s @ build_start b t0 # evs1\<rparr>"
    by (simp add: emit_def)
  note f = quiet_filter [OF q]
  show ?case
  proof (cases r)
    case (Inl x)
    with Cons.prems(1) run have c: "c = False" and s': "s' = emit (Error ''Build failed!'' x) s2"
      by (simp_all add: andThen_def bnd_def info_def build_start_def)
    from Cons.prems(2) s' s2
    have eq: "pre @ build_start b t # post = [build_start b t0] @ (evs1 @ [Error ''Build failed!'' x])"
      by (simp add: emit_def)
    have nomark: "filter is_build_start (evs1 @ [Error ''Build failed!'' x]) = []"
      using f by simp
    from marker_before_suffix [where P = is_build_start, OF eq nomark is_build_start_build_start]
    obtain zs where zs: "post = zs @ (evs1 @ [Error ''Build failed!'' x])"
      "[build_start b t0] = pre @ build_start b t # zs"
      by blast
    from zs(2) have "pre = [] \<and> t = t0 \<and> zs = []" by (cases pre) simp_all
    with zs(1) have pos: "pre = []" "t = t0" "post = evs1 @ [Error ''Build failed!'' x]"
      by simp_all
    with run Inl have "build env b t (s\<lparr>trace := trace s @ pre @ [build_start b t]\<rparr>) = (Inl x, s2)"
      by (simp add: emit_def)
    with c s' pos f show ?thesis by simp
  next
    case (Inr u)
    with Cons.prems(1) run have loop: "build_loop env b ts s2 = (c, s')"
      by (simp add: andThen_def bnd_def info_def build_start_def)
    from build_loop_shape [OF loop] obtain evs k where
      sh: "s' = s2\<lparr>trace := trace s2 @ evs\<rparr>" "k \<le> length ts"
        "filter is_build_start evs = map (build_start b) (take k ts)"
        "if c then k = length ts \<and> \<not> list_ex is_build_failed evs
         else 0 < k \<and> (\<exists>pre x. evs = pre @ [Error ''Build failed!'' x])"
      by blast
    from Cons.prems(2) sh(1) s2
    have eq: "pre @ build_start b t # post = build_start b t0 # evs1 @ evs"
      by simp
    show ?thesis
    proof (cases pre)
      case Nil
      with eq have pos: "t = t0" "post = evs1 @ evs" by simp_all
      with run Inr Nil
      have b: "build env b t (s\<lparr>trace := trace s @ pre @ [build_start b t]\<rparr>) = (Inr u, s2)"
        by (simp add: emit_def)
      have "filter is_build_start post = [] \<longrightarrow> c"
      proof
        assume "filter is_build_start post = []"
        with pos f sh(3) have "take k ts = []" by simp
        with sh(2,4) show c by (cases c) auto
      qed
      with b sh(1) show ?thesis by auto
    next
      case (Cons p pre')
      with eq have eq': "pre' @ build_start b t # post = evs1 @ evs" and p: "p = build_start b t0"
        by simp_all
      from f have nomark: "filter is_build_start evs1 = []" by simp
      from marker_split [where P = is_build_start, OF eq' nomark is_build_start_build_start]
      obtain zs where zs: "pre' = evs1 @ zs" "evs = zs @ build_start b t # post"
        by blast
      with sh(1) have "trace s' = trace s2 @ zs @ build_start b t # post" by simp
      from Cons.IH [OF loop this]
      have "case build env b t (s2\<lparr>trace := trace s2 @ zs @ [build_start b t]\<rparr>) of
           (Inl e, s'') \<Rightarrow>
              \<not> c \<and> s' = emit (Error ''Build failed!'' e) s'' \<and> filter is_build_start post = []
         | (Inr u, s'') \<Rightarrow>
              (\<exists>rest. s' = s''\<lparr>trace := trace s'' @ rest\<rparr>) \<and> (filter is_build_start post = [] \<longrightarrow> c)" .
      moreover have "s2\<lparr>trace := trace s2 @ zs @ [build_start b t]\<rparr>
          = s\<lparr>trace := trace s @ pre @ [build_start b t]\<rparr>"
        using s2 Cons p zs(1) by simp
      ultimately show ?thesis by simp
    qed
  qed
qed

lemma pull_step:
  "pullArtifacts env (pubDir b) (rsyncRoot b) s =
     (let ok = succeeds env (trace s @ [Info ''Pulling artifacts...'']) (pull_call b)
      in (if ok then Inr () else Inl (Rejected (pull_call b)),
          s\<lparr>trace := trace s @ [Info ''Pulling artifacts...'', Did (pull_call b) ok]\<rparr>))"
  by (simp add: andThen_def bnd_def pullArtifacts_def info_def emit_def
      spawn_def ext_def pull_call_def Let_def)

lemma push_step:
  "steps [info (''Built packages for: '' @ join '', '' ts @ '': pushing packages...''),
          pushArtifacts env (pubDir b) (rsyncRoot b),
          info ''...push complete!''] s =
     (let h = trace s @ [Info (''Built packages for: '' @ join '', '' ts @ '': pushing packages...''),
                         Info ''Uploading artifacts...''];
          ok = succeeds env h (push_call b)
      in (if ok then Inr () else Inl (Rejected (push_call b)),
          s\<lparr>trace := trace s @ push_events b ts ok,
            remote := push_result env (h @ [Did (push_call b) ok]) (remote s)\<rparr>))"
  by (simp add: andThen_def bnd_def pushArtifacts_def info_def emit_def resolve_def
      spawn_def ext_def push_call_def push_events_def Let_def)

lemma start_guarded_pull_failed:
  assumes "start_guarded env b ts s = (r, s')"
   and "\<not> succeeds env (trace s @ [SetBuilding True, Info ''Pulling artifacts...'']) (pull_call b)"
  shows "r = Inl (Rejected (pull_call b))"
      "s' = s\<lparr>building := True, trace := trace s @ pull_events b False\<rparr>"
  using assms
      by (simp_all add: start_guarded_def andThen_def bnd_def assign_building_def emit_def
          pull_step pull_events_def Let_def)

lemma pull_ok_step:
  assumes "succeeds env (trace s @ [SetBuilding True, Info ''Pulling artifacts...'']) (pull_call b)"
  shows "andThen (assign_building True) (pullArtifacts env (pubDir b) (rsyncRoot b)) s
              = (Inr (), s\<lparr>building := True, trace := trace s @ pull_events b True\<rparr>)"
  using assms
        by (simp add: andThen_def bnd_def assign_building_def emit_def pull_step
            pull_events_def Let_def)

lemma steps_Cons_run:
  "m s = (Inr (), s1) \<Longrightarrow> steps (m # ms) s = steps ms s1"
  "m s = (Inl e, s1) \<Longrightarrow> steps (m # ms) s = (Inl e, s1)"
  by (simp_all add: andThen_def bnd_def)

lemma start_guarded_pull_ok:
  assumes "succeeds env (trace s @ [SetBuilding True, Info ''Pulling artifacts...'']) (pull_call b)"
   and "build_loop env b ts (s\<lparr>building := True, trace := trace s @ pull_events b True\<rparr>) = (c, s3)"
  shows "start_guarded env b ts s =
        (if c then steps [info (''Built packages for: '' @ join '', '' ts @ '': pushing packages...''),
                          pushArtifacts env (pubDir b) (rsyncRoot b),
                          info ''...push complete!''] s3
         else (Inr (), s3))"
proof -
  have a: "assign_building True s = (Inr (), s\<lparr>building := True, trace := trace s @ [SetBuilding True]\<rparr>)"
    by (simp add: assign_building_def emit_def)
  have p: "pullArtifacts env (pubDir b) (rsyncRoot b)
             (s\<lparr>building := True, trace := trace s @ [SetBuilding True]\<rparr>)
           = (Inr (), s\<lparr>building := True, trace := trace s @ pull_events b True\<rparr>)"
    using assms(1) by (simp add: pull_step pull_events_def Let_def)
  let ?k = "\<lambda>s. case build_loop env b ts s of
                (False, s') \<Rightarrow> (Inr (), s')
              | (True, s') \<Rightarrow>
                  steps
                    [info (''Built packages for: '' @ join '', '' ts @ '': pushing packages...''),
                     pushArtifacts env (pubDir b) (rsyncRoot b),
                     info ''...push complete!''] s'"
  have "start_guarded env b ts s =
      steps [pullArtifacts env (pubDir b) (rsyncRoot b), ?k]
        (s\<lparr>building := True, trace := trace s @ [SetBuilding True]\<rparr>)"
    unfolding start_guarded_def
    by (rule steps_Cons_run(1) [where m = "assign_building True", OF a])
  also have "\<dots> = steps [?k] (s\<lparr>building := True, trace := trace s @ pull_events b True\<rparr>)"
    by (rule steps_Cons_run(1) [where m = "pullArtifacts env (pubDir b) (rsyncRoot b)", OF p])
  also have "\<dots> = (if c then steps [info (''Built packages for: '' @ join '', '' ts @ '': pushing packages...''),
                          pushArtifacts env (pubDir b) (rsyncRoot b),
                          info ''...push complete!''] s3
         else (Inr (), s3))"
  proof (cases c)
    case True
    obtain r4 s4 where "steps [info (''Built packages for: '' @ join '', '' ts @ '': pushing packages...''),
                          pushArtifacts env (pubDir b) (rsyncRoot b),
                          info ''...push complete!''] s3 = (r4, s4)"
      by (cases "steps [info (''Built packages for: '' @ join '', '' ts @ '': pushing packages...''),
                          pushArtifacts env (pubDir b) (rsyncRoot b),
                          info ''...push complete!''] s3")
    with True assms(2) show ?thesis
      by (cases r4) (simp_all add: steps.simps(2) [of ?k] andThen_def bnd_def resolve_def del: steps.simps(2))
  next
    case False
    with assms(2) show ?thesis
      by (simp add: steps.simps(2) [of ?k] andThen_def bnd_def resolve_def del: steps.simps(2))
  qed
  finally show ?thesis .
qed

lemma start_guarded_cases:
  assumes "start_guarded env b ts s = (r, s')"
  obtains
    (no_pull) "r = Inl (Rejected (pull_call b))"
      "s' = s\<lparr>building := True, trace := trace s @ pull_events b False\<rparr>"
  | (aborted) loop k pre x where "r = Inr ()"
      "s' = s\<lparr>building := True, trace := trace s @ pull_events b True @ loop\<rparr>"
      "0 < k" "k \<le> length ts"
      "filter is_build_start loop = map (build_start b) (take k ts)"
      "\<not> list_ex (is_push b) loop"
      "loop = pre @ [Error ''Build failed!'' x]"
      "build_loop env b ts (s\<lparr>building := True, trace := trace s @ pull_events b True\<rparr>)
         = (False, s\<lparr>building := True, trace := trace s @ pull_events b True @ loop\<rparr>)"
  | (built) loop ok where
      "r = (if ok then Inr () else Inl (Rejected (push_call b)))"
      "s' = s\<lparr>building := True,
              trace := trace s @ pull_events b True @ loop @ push_events b ts ok,
              remote := push_result env
                 (trace s @ pull_events b True @ loop
                  @ [Info (''Built packages for: '' @ join '', '' ts @ '': pushing packages...''),
                     Info ''Uploading artifacts...'', Did (push_call b) ok])
                 (remote s)\<rparr>"
      "filter is_build_start loop = map (build_start b) ts"
      "\<not> list_ex (is_push b) loop"
      "\<not> list_ex is_build_failed loop"
      "build_loop env b ts (s\<lparr>building := True, trace := trace s @ pull_events b True\<rparr>)
         = (True, s\<lparr>building := True, trace := trace s @ pull_events b True @ loop\<rparr>)"
proof -
  let ?okp = "succeeds env (trace s @ [SetBuilding True, Info ''Pulling artifacts...'']) (pull_call b)"
  let ?s2 = "s\<lparr>building := True, trace := trace s @ pull_events b True\<rparr>"
  show thesis
  proof (cases ?okp)
    case False
    from start_guarded_pull_failed [OF assms False] show thesis by (rule no_pull)
  next
    case True
    obtain c s3 where loop: "build_loop env b ts ?s2 = (c, s3)"
      by (cases "build_loop env b ts ?s2")
    from build_loop_shape [OF loop] obtain evs k where
      sh: "s3 = ?s2\<lparr>trace := trace ?s2 @ evs\<rparr>" "k \<le> length ts"
        "filter is_build_start evs = map (build_start b) (take k ts)"
        "\<not> list_ex (is_push b) evs"
        "if c then k = length ts \<and> \<not> list_ex is_build_failed evs
         else 0 < k \<and> (\<exists>pre x. evs = pre @ [Error ''Build failed!'' x])"
      by blast
    from sh(1) have s3: "s3 = s\<lparr>building := True, trace := trace s @ pull_events b True @ evs\<rparr>"
      by simp
    note run = start_guarded_pull_ok [OF True loop]
    show thesis
    proof (cases c)
      case False
      with sh(5) obtain pre x where k: "0 < k" and pre: "evs = pre @ [Error ''Build failed!'' x]"
        by auto
      from assms run False have "r = Inr ()" "s' = s3" by simp_all
      with s3 have res: "r = Inr ()"
        "s' = s\<lparr>building := True, trace := trace s @ pull_events b True @ evs\<rparr>"
        by simp_all
      from loop False s3
      have bl: "build_loop env b ts ?s2
         = (False, s\<lparr>building := True, trace := trace s @ pull_events b True @ evs\<rparr>)"
        by simp
      from res k sh(2,3,4) pre bl show thesis by (rule aborted)
    next
      case c: True
      let ?h = "trace s3 @ [Info (''Built packages for: '' @ join '', '' ts @ '': pushing packages...''),
                           Info ''Uploading artifacts...'']"
      let ?okq = "succeeds env ?h (push_call b)"
      from assms run c have "(r, s') = steps [info (''Built packages for: '' @ join '', '' ts @ '': pushing packages...''),
                          pushArtifacts env (pubDir b) (rsyncRoot b),
                          info ''...push complete!''] s3"
        by (simp only: if_True)
      also have "\<dots> = (if ?okq then Inr () else Inl (Rejected (push_call b)),
          s3\<lparr>trace := trace s3 @ push_events b ts ?okq,
               remote := push_result env (?h @ [Did (push_call b) ?okq]) (remote s3)\<rparr>)"
        by (simp only: push_step Let_def)
      finally have "r = (if ?okq then Inr () else Inl (Rejected (push_call b)))"
        "s' = s3\<lparr>trace := trace s3 @ push_events b ts ?okq,
                 remote := push_result env (?h @ [Did (push_call b) ?okq]) (remote s3)\<rparr>"
        by simp_all
      then have "r = (if ?okq then Inr () else Inl (Rejected (push_call b)))"
        "s' = s\<lparr>building := True,
              trace := trace s @ pull_events b True @ evs @ push_events b ts ?okq,
              remote := push_result env
                 (trace s @ pull_events b True @ evs
                  @ [Info (''Built packages for: '' @ join '', '' ts @ '': pushing packages...''),
                     Info ''Uploading artifacts...'', Did (push_call b) ?okq])
                 (remote s)\<rparr>"
        unfolding s3 by simp_all
      moreover from sh(3,5) c have "filter is_build_start evs = map (build_start b) ts" by simp
      moreover note sh(4)
      moreover from sh(5) c have "\<not> list_ex is_build_failed evs" by simp
      moreover from loop c s3
      have "build_loop env b ts ?s2
         = (True, s\<lparr>building := True, trace := trace s @ pull_events b True @ evs\<rparr>)"
        by simp
      ultimately show thesis by (rule built [where ok = ?okq and loop = evs])
    qed
  qed
qed

lemma TYPES_nonempty: "TYPES \<noteq> []"
  by (simp add: TYPES_def)

lemma case_resolve:
  "(case p of (Inl e, s') \<Rightarrow> (Inl e, s') | (Inr x, s') \<Rightarrow> resolve x s') = p"
  by (cases p; cases "fst p") (auto simp: resolve_def)

lemma start_unfold:
  "start env b s =
     (case get_secret env
             (trace s @ [Info (''Starting Element Desktop '' @ desktopBranch b @ '' release builder...''),
                         SetBuilding False]) ''riot_key_container'' of
        None \<Rightarrow> (Inl (Rejected (GetSecret ''riot_key_container'')),
                 s\<lparr>building := False, trace := trace s @ start_head b False\<rparr>)
      | Some key \<Rightarrow>
          (case start_guarded env b TYPES
                  (s\<lparr>building := False, trace := trace s @ start_head b True,
                     riotSigningKeyContainer := Some key\<rparr>) of
             (r, s') \<Rightarrow> (r, s'\<lparr>building := False, trace := trace s' @ [SetBuilding False]\<rparr>)))"
proof -
  let ?h0 = "trace s @ [Info (''Starting Element Desktop '' @ desktopBranch b @ '' release builder...''),
                       SetBuilding False]"
  show ?thesis
  proof (cases "get_secret env ?h0 ''riot_key_container''")
    case None
    then show ?thesis
      by (simp add: start_def andThen_def bnd_def info_def emit_def assign_building_def
          getSecret_def start_head_def)
  next
    case (Some key)
    let ?s1 = "s\<lparr>building := False, trace := trace s @ start_head b True,
                  riotSigningKeyContainer := Some key\<rparr>"
    obtain r1 s2 where g: "start_guarded env b TYPES ?s1 = (r1, s2)"
      by (cases "start_guarded env b TYPES ?s1")
    have "start env b s = tryFinally (start_guarded env b TYPES) (assign_building False) ?s1"
      using Some
      by (simp add: start_def andThen_def bnd_def info_def emit_def assign_building_def
          getSecret_def start_head_def Let_def TYPES_nonempty case_resolve)
    also have "\<dots> = (r1, s2\<lparr>building := False, trace := trace s2 @ [SetBuilding False]\<rparr>)"
      using g by (simp add: tryFinally_def assign_building_def emit_def)
    finally show ?thesis using Some g by simp
  qed
qed

lemma start_cases:
  assumes "start env b s = (r, s')"
  obtains
    (no_secret) "r = Inl (Rejected (GetSecret ''riot_key_container''))"
      "s' = s\<lparr>building := False, trace := trace s @ start_head b False\<rparr>"
  | (no_pull) key where "r = Inl (Rejected (pull_call b))"
      "s' = s\<lparr>building := False, riotSigningKeyContainer := Some key,
              trace := trace s @ start_head b True @ pull_events b False @ [SetBuilding False]\<rparr>"
  | (aborted) key loop k pre x where "r = Inr ()"
      "s' = s\<lparr>building := False, riotSigningKeyContainer := Some key,
              trace := trace s @ start_head b True @ pull_events b True @ loop @ [SetBuilding False]\<rparr>"
      "0 < k" "k \<le> length TYPES"
      "filter is_build_start loop = map (build_start b) (take k TYPES)"
      "\<not> list_ex (is_push b) loop"
      "loop = pre @ [Error ''Build failed!'' x]"
      "build_loop env b TYPES
         (s\<lparr>building := True, riotSigningKeyContainer := Some key,
            trace := trace s @ start_head b True @ pull_events b True\<rparr>)
         = (False, s\<lparr>building := True, riotSigningKeyContainer := Some key,
                     trace := trace s @ start_head b True @ pull_events b True @ loop\<rparr>)"
  | (built) key loop ok where
      "r = (if ok then Inr () else Inl (Rejected (push_call b)))"
      "s' = s\<lparr>building := False, riotSigningKeyContainer := Some key,
              trace := trace s @ start_head b True @ pull_events b True @ loop
                       @ push_events b TYPES ok @ [SetBuilding False],
              remote := push_result env
                 (trace s @ start_head b True @ pull_events b True @ loop
                  @ [Info (''Built packages for: '' @ join '', '' TYPES @ '': pushing packages...''),
                     Info ''Uploading artifacts...'', Did (push_call b) ok])
                 (remote s)\<rparr>"
      "filter is_build_start loop = map (build_start b) TYPES"
      "\<not> list_ex (is_push b) loop"
      "\<not> list_ex is_build_failed loop"
      "build_loop env b TYPES
         (s\<lparr>building := True, riotSigningKeyContainer := Some key,
            trace := trace s @ start_head b True @ pull_events b True\<rparr>)
         = (True, s\<lparr>building := True, riotSigningKeyContainer := Some key,
                    trace := trace s @ start_head b True @ pull_events b True @ loop\<rparr>)"
proof -
  let ?h0 = "trace s @ [Info (''Starting Element Desktop '' @ desktopBranch b @ '' release builder...''),
                       SetBuilding False]"
  show thesis
  proof (cases "get_secret env ?h0 ''riot_key_container''")
    case None
    with assms have "r = Inl (Rejected (GetSecret ''riot_key_container''))"
      "s' = s\<lparr>building := False, trace := trace s @ start_head b False\<rparr>"
      by (simp_all add: start_unfold)
    then show thesis by (rule no_secret)
  next
    case (Some key)
    let ?s1 = "s\<lparr>building := False, trace := trace s @ start_head b True,
                  riotSigningKeyContainer := Some key\<rparr>"
    obtain r1 s2 where g: "start_guarded env b TYPES ?s1 = (r1, s2)"
      by (cases "start_guarded env b TYPES ?s1")
    with assms Some have r: "r = r1" and s': "s' = s2\<lparr>building := False, trace := trace s2 @ [SetBuilding False]\<rparr>"
      by (simp_all add: start_unfold)
    have entry: "?s1\<lparr>building := True, trace := trace ?s1 @ pull_events b True\<rparr>
        = s\<lparr>building := True, riotSigningKeyContainer := Some key,
             trace := trace s @ start_head b True @ pull_events b True\<rparr>"
      by simp
    have exit: "?s1\<lparr>building := True, trace := trace ?s1 @ pull_events b True @ loop\<rparr>
        = s\<lparr>building := True, riotSigningKeyContainer := Some key,
             trace := trace s @ start_head b True @ pull_events b True @ loop\<rparr>" for loop
      by simp
    from g show thesis
    proof (cases rule: start_guarded_cases)
      case no_pull
      with r s' have "r = Inl (Rejected (pull_call b))"
        "s' = s\<lparr>building := False, riotSigningKeyContainer := Some key,
              trace := trace s @ start_head b True @ pull_events b False @ [SetBuilding False]\<rparr>"
        by simp_all
      then show thesis by (rule that(2))
    next
      case (aborted loop k pre x)
      with r s' have "r = Inr ()"
        "s' = s\<lparr>building := False, riotSigningKeyContainer := Some key,
              trace := trace s @ start_head b True @ pull_events b True @ loop @ [SetBuilding False]\<rparr>"
        by simp_all
      moreover note aborted(3-7)
      moreover from aborted(8) have "build_loop env b TYPES
         (s\<lparr>building := True, riotSigningKeyContainer := Some key,
            trace := trace s @ start_head b True @ pull_events b True\<rparr>)
         = (False, s\<lparr>building := True, riotSigningKeyContainer := Some key,
                     trace := trace s @ start_head b True @ pull_events b True @ loop\<rparr>)"
        unfolding entry exit .
      ultimately show thesis by (rule that(3))
    next
      case (built loop ok)
      with r s' have "r = (if ok then Inr () else Inl (Rejected (push_call b)))"
        "s' = s\<lparr>building := False, riotSigningKeyContainer := Some key,
              trace := trace s @ start_head b True @ pull_events b True @ loop
                       @ push_events b TYPES ok @ [SetBuilding False],
              remote := push_result env
                 (trace s @ start_head b True @ pull_events b True @ loop
                  @ [Info (''Built packages for: '' @ join '', '' TYPES @ '': pushing packages...''),
                     Info ''Uploading artifacts...'', Did (push_call b) ok])
                 (remote s)\<rparr>"
        by simp_all
      moreover note built(3-5)
      moreover from built(6) have "build_loop env b TYPES
         (s\<lparr>building := True, riotSigningKeyContainer := Some key,
            trace := trace s @ start_head b True @ pull_events b True\<rparr>)
         = (True, s\<lparr>building := True, riotSigningKeyContainer := Some key,
                    trace := trace s @ start_head b True @ pull_events b True @ loop\<rparr>)"
        unfolding entry exit .
      ultimately show thesis by (rule that(4))
    qed
  qed
qed

lemma start_head_facts [simp]:
  "filter is_build_start (start_head b ok) = []"
  "\<not> list_ex is_build_failed (start_head b ok)"
  "\<not> list_ex (is_push b) (start_head b ok)"
  by (simp_all add: start_head_def is_build_start_def startsWith_def push_call_def)

lemma pull_not_push: "pull_call b \<noteq> push_call b"
  by (simp add: pull_call_def push_call_def)

lemma pull_events_facts [simp]:
  "filter is_build_start (pull_events b ok) = []"
  "\<not> list_ex is_build_failed (pull_events b ok)"
  "\<not> list_ex (is_push b) (pull_events b ok)"
  "Did (pull_call b) ok \<in> set (pull_events b ok)"
  by (simp_all add: pull_events_def is_build_start_def startsWith_def pull_not_push)

lemma push_events_facts [simp]:
  "filter is_build_start (push_events b ts ok) = []"
  "\<not> list_ex is_build_failed (push_events b ts ok)"
  by (simp_all add: push_events_def is_build_start_def startsWith_def)

lemma push_events_split:
  "push_events b ts ok =
     [Info (''Built packages for: '' @ join '', '' ts @ '': pushing packages...''),
      Info ''Uploading artifacts...''] @ Did (push_call b) ok # (if ok then [Info ''...push complete!''] else [])"
  by (simp add: push_events_def)

lemma pull_before_markers:
  assumes "evs = start_head b True @ pull_events b True @ rest"
    and "evs = pre @ e # post" and "is_build_start e"
  shows "Did (pull_call b) True \<in> set pre"
proof -
  from assms(1,2) have "(start_head b True @ pull_events b True) @ rest = pre @ e # post"
    by simp
  moreover have "filter is_build_start (start_head b True @ pull_events b True) = []"
    by simp
  ultimately obtain zs where "pre = (start_head b True @ pull_events b True) @ zs"
    using assms(3) marker_after_prefix [where P = is_build_start] by blast
  then show ?thesis by simp
qed

lemma push_events_has_push: "list_ex (is_push b) (push_events b ts ok)"
  by (simp add: push_events_def)

lemma start_builds:
  assumes run: "start env b s = (r, s')"
    and pos: "trace s' = trace s @ pre @ build_start b t # post"
  shows "Did (pull_call b) True \<in> set pre \<and>
    (case build env b t (state_at s s' (pre @ [build_start b t])) of
       (Inl e, s'') \<Rightarrow>
          r = Inr () \<and> trace s' = trace s'' @ [Error ''Build failed!'' e, SetBuilding False]
          \<and> filter is_build_start post = [] \<and> \<not> list_ex (is_push b) (pre @ post)
          \<and> remote s' = remote s
     | (Inr u, s'') \<Rightarrow>
          (\<exists>rest. trace s' = trace s'' @ rest)
          \<and> (filter is_build_start post = [] \<longrightarrow> list_ex (is_push b) post))"
  using run
proof (cases rule: start_cases)
  case no_secret
  with pos have "start_head b False = pre @ build_start b t # post" by simp
  from no_marker_inside [where P = is_build_start, OF start_head_facts(1) this]
  show ?thesis by simp
next
  case (no_pull key)
  let ?evs = "start_head b True @ pull_events b False @ [SetBuilding False]"
  have none: "filter is_build_start ?evs = []" by simp
  from pos no_pull have "?evs = pre @ build_start b t # post" by simp
  from no_marker_inside [where P = is_build_start, OF none this]
  show ?thesis by simp
next
  case (aborted key loop k pre0 x)
  let ?hp = "start_head b True @ pull_events b True"
  let ?E = "s\<lparr>building := True, riotSigningKeyContainer := Some key, trace := trace s @ ?hp\<rparr>"
  let ?X = "s\<lparr>building := True, riotSigningKeyContainer := Some key, trace := trace s @ ?hp @ loop\<rparr>"
  from pos aborted(2) have eq: "pre @ build_start b t # post = ?hp @ (loop @ [SetBuilding False])"
    by simp
  have hp: "filter is_build_start ?hp = []" by simp
  from marker_split [where P = is_build_start, OF eq hp is_build_start_build_start]
  obtain zs where zs: "pre = ?hp @ zs" "loop @ [SetBuilding False] = zs @ build_start b t # post"
    by blast
  from zs(2) have eq2: "zs @ build_start b t # post = loop @ [SetBuilding False]" by simp
  have tl: "filter is_build_start [SetBuilding False] = []" by simp
  from marker_before_suffix [where P = is_build_start, OF eq2 tl is_build_start_build_start]
  obtain ws where ws: "post = ws @ [SetBuilding False]" "loop = zs @ build_start b t # ws"
    by blast
  from ws(2) have tr: "trace ?X = trace ?E @ zs @ build_start b t # ws" by simp
  have loop: "build_loop env b TYPES ?E = (False, ?X)"
    using aborted(8) by simp
  have st: "?E\<lparr>trace := trace ?E @ zs @ [build_start b t]\<rparr> = state_at s s' (pre @ [build_start b t])"
    using aborted(2) zs(1) by (simp add: state_at_def)
  note out = build_loop_outcomes [OF loop tr, unfolded st]
  have pull: "Did (pull_call b) True \<in> set pre" using zs(1) by simp
  obtain r0 s0 where res: "build env b t (state_at s s' (pre @ [build_start b t])) = (r0, s0)"
    by (cases "build env b t (state_at s s' (pre @ [build_start b t]))")
  show ?thesis
  proof (cases r0)
    case (Inl e)
    with out res have o: "?X = emit (Error ''Build failed!'' e) s0" "filter is_build_start ws = []"
      by simp_all
    from o(1) have "trace ?X = trace s0 @ [Error ''Build failed!'' e]" by (simp add: emit_def)
    with aborted(2) have "trace s' = trace s0 @ [Error ''Build failed!'' e, SetBuilding False]"
      by simp
    moreover from aborted(6) ws(2) zs(1) ws(1) have "\<not> list_ex (is_push b) (pre @ post)"
      by simp
    moreover from aborted(2) have "remote s' = remote s" by simp
    moreover from o(2) ws(1) have "filter is_build_start post = []" by simp
    ultimately show ?thesis using pull res Inl aborted(1) by simp
  next
    case (Inr u)
    with out res obtain rest where o: "?X = s0\<lparr>trace := trace s0 @ rest\<rparr>"
      "filter is_build_start ws \<noteq> []"
      by auto
    from o(1) have "trace ?X = trace s0 @ rest" by simp
    with aborted(2) have "trace s' = trace s0 @ rest @ [SetBuilding False]" by simp
    moreover from o(2) ws(1) have "filter is_build_start post \<noteq> []" by simp
    ultimately show ?thesis using pull res Inr by simp
  qed
next
  case (built key loop ok)
  let ?hp = "start_head b True @ pull_events b True"
  let ?tail = "push_events b TYPES ok @ [SetBuilding False]"
  let ?E = "s\<lparr>building := True, riotSigningKeyContainer := Some key, trace := trace s @ ?hp\<rparr>"
  let ?X = "s\<lparr>building := True, riotSigningKeyContainer := Some key, trace := trace s @ ?hp @ loop\<rparr>"
  from pos built(2) have eq: "pre @ build_start b t # post = ?hp @ (loop @ ?tail)"
    by simp
  have hp: "filter is_build_start ?hp = []" by simp
  from marker_split [where P = is_build_start, OF eq hp is_build_start_build_start]
  obtain zs where zs: "pre = ?hp @ zs" "loop @ ?tail = zs @ build_start b t # post"
    by blast
  from zs(2) have eq2: "zs @ build_start b t # post = loop @ ?tail" by simp
  have tl: "filter is_build_start ?tail = []" by simp
  from marker_before_suffix [where P = is_build_start, OF eq2 tl is_build_start_build_start]
  obtain ws where ws: "post = ws @ ?tail" "loop = zs @ build_start b t # ws"
    by blast
  from ws(2) have tr: "trace ?X = trace ?E @ zs @ build_start b t # ws" by simp
  have loop: "build_loop env b TYPES ?E = (True, ?X)"
    using built(6) by simp
  have st: "?E\<lparr>trace := trace ?E @ zs @ [build_start b t]\<rparr> = state_at s s' (pre @ [build_start b t])"
    using built(2) zs(1) by (simp add: state_at_def)
  note out = build_loop_outcomes [OF loop tr, unfolded st]
  have pull: "Did (pull_call b) True \<in> set pre" using zs(1) by simp
  obtain r0 s0 where res: "build env b t (state_at s s' (pre @ [build_start b t])) = (r0, s0)"
    by (cases "build env b t (state_at s s' (pre @ [build_start b t]))")
  show ?thesis
  proof (cases r0)
    case (Inl e)
    with out res show ?thesis by simp
  next
    case (Inr u)
    with out res obtain rest where o: "?X = s0\<lparr>trace := trace s0 @ rest\<rparr>"
      by auto
    from o have "trace ?X = trace s0 @ rest" by simp
    with built(2) have "trace s' = trace s0 @ rest @ ?tail" by simp
    moreover from ws(1) have "list_ex (is_push b) post"
      by (simp add: push_events_has_push)
    ultimately show ?thesis using pull res Inr by simp
  qed
qed

lemma start_log_shape:
  assumes "start env b s = (r, s')"
  shows "\<exists>evs. trace s' = trace s @ evs \<and>
     (list_ex is_build_failed evs \<longrightarrow>
        \<not> list_ex (is_push b) evs \<and> remote s' = remote s \<and>
        (\<exists>k pre x. 0 < k \<and> k \<le> length TYPES \<and>
           filter is_build_start evs = map (build_start b) (take k TYPES) \<and>
           evs = pre @ [Error ''Build failed!'' x, SetBuilding False])) \<and>
     (list_ex (is_push b) evs \<longrightarrow>
        (\<exists>pre ok post. evs = pre @ Did (push_call b) ok # post \<and>
           filter is_build_start pre = map (build_start b) TYPES \<and>
           \<not> list_ex is_build_failed pre \<and> filter is_build_start post = [])) \<and>
     (\<forall>pre e post. evs = pre @ e # post \<and> is_build_start e \<longrightarrow> Did (pull_call b) True \<in> set pre)"
  using assms
proof (cases rule: start_cases)
  case no_secret
  have "filter is_build_start (start_head b False) = []" by simp
  then have "\<forall>pre e post. start_head b False = pre @ e # post \<and> is_build_start e
      \<longrightarrow> Did (pull_call b) True \<in> set pre"
    using no_marker_inside [where P = is_build_start] by blast
  with no_secret show ?thesis
    by (intro exI [of _ "start_head b False"]) simp
next
  case (no_pull key)
  let ?evs = "start_head b True @ pull_events b False @ [SetBuilding False]"
  have "filter is_build_start ?evs = []" by simp
  then have "\<forall>pre e post. ?evs = pre @ e # post \<and> is_build_start e
      \<longrightarrow> Did (pull_call b) True \<in> set pre"
    using no_marker_inside [where P = is_build_start] by blast
  with no_pull show ?thesis
    by (intro exI [of _ ?evs]) simp
next
  case (aborted key loop k pre x)
  let ?evs = "start_head b True @ pull_events b True @ loop @ [SetBuilding False]"
  have shape: "?evs = (start_head b True @ pull_events b True @ pre)
      @ [Error ''Build failed!'' x, SetBuilding False]"
    using aborted(7) by simp
  have markers: "filter is_build_start ?evs = map (build_start b) (take k TYPES)"
    using aborted(5) by simp
  have nopush: "\<not> list_ex (is_push b) ?evs"
    using aborted(6) by simp
  have pull: "\<forall>pre e post. ?evs = pre @ e # post \<and> is_build_start e
      \<longrightarrow> Did (pull_call b) True \<in> set pre"
    by (blast intro: pull_before_markers [OF refl])
  show ?thesis
  proof (intro exI [of _ ?evs] conjI)
    show "trace s' = trace s @ ?evs" using aborted(2) by simp
    show "list_ex is_build_failed ?evs \<longrightarrow>
        \<not> list_ex (is_push b) ?evs \<and> remote s' = remote s \<and>
        (\<exists>k pre x. 0 < k \<and> k \<le> length TYPES \<and>
           filter is_build_start ?evs = map (build_start b) (take k TYPES) \<and>
           ?evs = pre @ [Error ''Build failed!'' x, SetBuilding False])"
    proof -
      have "remote s' = remote s" using aborted(2) by simp
      with nopush aborted(3,4) markers shape show ?thesis by blast
    qed
    show "list_ex (is_push b) ?evs \<longrightarrow>
        (\<exists>pre ok post. ?evs = pre @ Did (push_call b) ok # post \<and>
           filter is_build_start pre = map (build_start b) TYPES \<and>
           \<not> list_ex is_build_failed pre \<and> filter is_build_start post = [])"
      using nopush by blast
    show "\<forall>pre e post. ?evs = pre @ e # post \<and> is_build_start e
      \<longrightarrow> Did (pull_call b) True \<in> set pre" by (rule pull)
  qed
next
  case (built key loop ok)
  let ?tail = "(if ok then [Info ''...push complete!''] else []) @ [SetBuilding False]"
  let ?pre = "start_head b True @ pull_events b True @ loop
     @ [Info (''Built packages for: '' @ join '', '' TYPES @ '': pushing packages...''),
        Info ''Uploading artifacts...'']"
  let ?evs = "start_head b True @ pull_events b True @ loop @ push_events b TYPES ok
     @ [SetBuilding False]"
  have shape: "?evs = ?pre @ Did (push_call b) ok # ?tail"
    by (simp add: push_events_split)
  have nofail: "\<not> list_ex is_build_failed ?evs"
    using built(5) by simp
  have pre: "filter is_build_start ?pre = map (build_start b) TYPES"
    "\<not> list_ex is_build_failed ?pre" "filter is_build_start ?tail = []"
    using built(3,5) by (simp_all add: is_build_start_def startsWith_def)
  have pull: "\<forall>pre e post. ?evs = pre @ e # post \<and> is_build_start e
      \<longrightarrow> Did (pull_call b) True \<in> set pre"
    by (blast intro: pull_before_markers [OF refl])
  show ?thesis
  proof (intro exI [of _ ?evs] conjI)
    show "trace s' = trace s @ ?evs" using built(2) by simp
    show "list_ex is_build_failed ?evs \<longrightarrow>
        \<not> list_ex (is_push b) ?evs \<and> remote s' = remote s \<and>
        (\<exists>k pre x. 0 < k \<and> k \<le> length TYPES \<and>
           filter is_build_start ?evs = map (build_start b) (take k TYPES) \<and>
           ?evs = pre @ [Error ''Build failed!'' x, SetBuilding False])"
      using nofail by blast
    show "list_ex (is_push b) ?evs \<longrightarrow>
        (\<exists>pre ok post. ?evs = pre @ Did (push_call b) ok # post \<and>
           filter is_build_start pre = map (build_start b) TYPES \<and>
           \<not> list_ex is_build_failed pre \<and> filter is_build_start post = [])"
      using shape pre by blast
    show "\<forall>pre e post. ?evs = pre @ e # post \<and> is_build_start e
      \<longrightarrow> Did (pull_call b) True \<in> set pre" by (rule pull)
  qed
qed

lemma start_attempts_shape:
  assumes "start env b s = (r, s')"
  shows "\<exists>evs k. trace s' = trace s @ evs \<and> k \<le> length TYPES \<and>
        filter is_build_start evs = map (build_start b) (take k TYPES) \<and>
        (Did (pull_call b) True \<in> set evs \<longleftrightarrow> 0 < k) \<and>
        (\<not> list_ex is_build_failed evs \<and> Did (pull_call b) True \<in> set evs
           \<longrightarrow> k = length TYPES) \<and>
        (list_ex (is_push b) evs \<longrightarrow> k = length TYPES)"
proof -
  have nopull: "Did (pull_call b) True \<notin> set (start_head b ok)"
    "Did (pull_call b) True \<notin> set (pull_events b False)" for ok
    by (simp_all add: start_head_def pull_events_def pull_call_def)
  have some: "0 < length TYPES" by (simp add: TYPES_def)
  from assms show ?thesis
  proof (cases rule: start_cases)
    case no_secret
    with nopull show ?thesis
      by (intro exI [of _ "start_head b False"] exI [of _ 0]) simp
  next
    case (no_pull key)
    with nopull show ?thesis
      by (intro exI [of _ "start_head b True @ pull_events b False @ [SetBuilding False]"]
            exI [of _ 0]) simp
  next
    case (aborted key loop k pre x)
    then show ?thesis
      by (intro exI [of _ "start_head b True @ pull_events b True @ loop @ [SetBuilding False]"]
            exI [of _ k]) simp
  next
    case (built key loop ok)
    with some show ?thesis
      by (intro exI [of _ "start_head b True @ pull_events b True @ loop
              @ push_events b TYPES ok @ [SetBuilding False]"]
            exI [of _ "length TYPES"]) simp
  qed
qed

lemma start_ignores_building_flag: "start env b (s\<lparr>building := v\<rparr>) = start env b s"
  by (simp add: start_unfold split: option.split)

subsection \<open>Listing, targets and ingestion\<close>

lemma matching_loop_filter: "matching_loop exp fs ret = ret @ filter (test exp) fs"
  by (induction fs arbitrary: ret) simp_all

lemma calls_append [simp]: "calls (xs @ ys) = calls xs @ calls ys"
  by (induction xs rule: calls.induct) simp_all

lemma ingestions_simps [simp]:
  "ingestions [] = []"
  "ingestions (xs @ ys) = ingestions xs @ ingestions ys"
  "ingestions (Info m # es) = ingestions es"
  "ingestions (Did (ReadFile p) ok # es) = ingestions es"
  "ingestions (Did (ingest_call d deb t) ok # es) = ingest_call d deb t # ingestions es"
  by (simp_all add: ingestions_def is_reprepro_def ingest_call_def)

lemma length_all_ingestions:
  "length (all_ingestions d debs ts) = length debs * length ts"
  by (induction debs) (simp_all add: all_ingestions_def)

lemma targets_loop_filter:
  "targets_loop lines ret =
     ret @ map (\<lambda>l. at_index (split l '': '') 1) (filter (\<lambda>l. startsWith l ''Codename'') lines)"
  by (induction lines arbitrary: ret) simp_all

lemma getRepoTargets_read:
  assumes "read_file env (trace s) (path_join [d, ''conf'', ''distributions'']) = Some conf"
  shows "getRepoTargets env d s =
     (Inr (targets_loop (split conf [LF]) []),
      emit (Did (ReadFile (path_join [d, ''conf'', ''distributions''])) True) s)"
  using assms by (simp add: getRepoTargets_def bnd_def readFile_def resolve_def)

lemma ingestion_events_simps [simp]:
  "ingestion_events [] = []"
  "ingestion_events (xs @ ys) = ingestion_events xs @ ingestion_events ys"
  "ingestion_events (Info m # es) = ingestion_events es"
  "ingestion_events (Did (ReadFile p) ok # es) = ingestion_events es"
  "ingestion_events (Did (ingest_call d deb t) ok # es)
     = Did (ingest_call d deb t) ok # ingestion_events es"
  by (simp_all add: ingestion_events_def is_ingestion_def is_reprepro_def ingest_call_def)

lemma ingestion_events_map [simp]:
  "ingestion_events (map (\<lambda>t. Did (ingest_call d deb (f t)) ok) ts)
     = map (\<lambda>t. Did (ingest_call d deb (f t)) ok) ts"
  by (induction ts) simp_all

lemma ingestions_of_events: "ingestions evs = calls (ingestion_events evs)"
  by (induction evs rule: calls.induct)
     (simp_all add: ingestions_def ingestion_events_def is_ingestion_def)

lemma all_ingestions_Cons:
  "all_ingestions d (deb # debs) ts
     = map (\<lambda>t. ingest_call d deb (Some t)) ts @ all_ingestions d debs ts"
  by (simp add: all_ingestions_def)

lemma all_ingestions_member:
  "c \<in> set (all_ingestions d debs ts) \<Longrightarrow> \<exists>deb t. c = ingest_call d deb t"
  by (auto simp: all_ingestions_def)

text \<open>The inner loop of \<open>addDeb\<close>: one \<open>reprepro includedeb\<close> per target, up to and
  including the first one that fails.\<close>
lemma ingest_loop_run:
  assumes "for_of tgs (\<lambda>t. spawn env ''reprepro'' [Some ''includedeb'', t, Some deb] (Some d)) s
             = (r, s')"
  shows "(r = Inr () \<longrightarrow>
            s' = s\<lparr>trace := trace s @ map (\<lambda>t. Did (ingest_call d deb t) True) tgs\<rparr>)
     \<and> (\<forall>e. r = Inl e \<longrightarrow>
          (\<exists>j<length tgs. e = Rejected (ingest_call d deb (tgs ! j))
             \<and> s' = s\<lparr>trace := trace s @ map (\<lambda>t. Did (ingest_call d deb t) True) (take j tgs)
                                @ [Did (ingest_call d deb (tgs ! j)) False]\<rparr>
             \<and> \<not> succeeds env (trace s @ map (\<lambda>t. Did (ingest_call d deb t) True) (take j tgs))
                    (ingest_call d deb (tgs ! j))))"
  using assms
proof (induction tgs arbitrary: s)
  case Nil
  then show ?case by (auto simp: resolve_def)
next
  case (Cons t tgs)
  let ?body = "\<lambda>t. spawn env ''reprepro'' [Some ''includedeb'', t, Some deb] (Some d)"
  let ?ok = "succeeds env (trace s) (ingest_call d deb t)"
  let ?s1 = "s\<lparr>trace := trace s @ [Did (ingest_call d deb t) ?ok]\<rparr>"
  have step: "?body t s = (if ?ok then Inr () else Inl (Rejected (ingest_call d deb t)), ?s1)"
    by (simp add: spawn_def ext_def emit_def ingest_call_def Let_def)
  show ?case
  proof (cases ?ok)
    case False
    with step Cons.prems have "r = Inl (Rejected (ingest_call d deb t))" "s' = ?s1"
      by (simp_all add: andThen_def bnd_def)
    with False show ?thesis by (auto intro!: exI [of _ 0])
  next
    case True
    with step Cons.prems have run: "for_of tgs ?body ?s1 = (r, s')"
      by (simp add: andThen_def bnd_def)
    note ih = Cons.IH [OF run]
    show ?thesis
    proof (intro conjI allI impI)
      assume "r = Inr ()"
      with ih True
      show "s' = s\<lparr>trace := trace s @ map (\<lambda>t. Did (ingest_call d deb t) True) (t # tgs)\<rparr>"
        by simp
    next
      fix e
      assume "r = Inl e"
      with ih obtain j where j: "j < length tgs" "e = Rejected (ingest_call d deb (tgs ! j))"
        "s' = ?s1\<lparr>trace := trace ?s1 @ map (\<lambda>t. Did (ingest_call d deb t) True) (take j tgs)
                                @ [Did (ingest_call d deb (tgs ! j)) False]\<rparr>"
        "\<not> succeeds env (trace ?s1 @ map (\<lambda>t. Did (ingest_call d deb t) True) (take j tgs))
                    (ingest_call d deb (tgs ! j))"
        by blast
      with True
      show "\<exists>j<length (t # tgs). e = Rejected (ingest_call d deb ((t # tgs) ! j))
             \<and> s' = s\<lparr>trace := trace s @ map (\<lambda>t. Did (ingest_call d deb t) True) (take j (t # tgs))
                                @ [Did (ingest_call d deb ((t # tgs) ! j)) False]\<rparr>
             \<and> \<not> succeeds env (trace s @ map (\<lambda>t. Did (ingest_call d deb t) True) (take j (t # tgs)))
                    (ingest_call d deb ((t # tgs) ! j))"
        by (intro exI [of _ "Suc j"]) simp
    qed
  qed
qed

lemma addDeb_run:
  assumes conf: "\<forall>h. read_file env h (path_join [d, ''conf'', ''distributions'']) = Some conf"
    and targets: "targets_loop (split conf [LF]) [] = map Some ts"
    and run: "addDeb env d deb s = (r, s')"
  shows "\<exists>evs. s' = s\<lparr>trace := trace s @ evs\<rparr>
     \<and> (r = Inr () \<longrightarrow>
          ingestion_events evs = map (\<lambda>t. Did (ingest_call d deb (Some t)) True) ts)
     \<and> (\<forall>e. r = Inl e \<longrightarrow>
          (\<exists>j<length ts. e = Rejected (ingest_call d deb (Some (ts ! j)))
             \<and> ingestion_events evs
                 = map (\<lambda>t. Did (ingest_call d deb (Some t)) True) (take j ts)
                   @ [Did (ingest_call d deb (Some (ts ! j))) False]
             \<and> (\<exists>pre. evs = pre @ [Did (ingest_call d deb (Some (ts ! j))) False]
                   \<and> \<not> succeeds env (trace s @ pre) (ingest_call d deb (Some (ts ! j))))))"
proof -
  let ?p = "path_join [d, ''conf'', ''distributions'']"
  let ?msg = "''Adding '' @ deb @ '' for ''
                @ join '', '' (map (\<lambda>t. case t of None \<Rightarrow> [] | Some x \<Rightarrow> x) (map Some ts)) @ ''...''"
  let ?hd = "[Did (ReadFile ?p) True, Info ?msg]"
  let ?s1 = "s\<lparr>trace := trace s @ ?hd\<rparr>"
  let ?loop = "for_of (map Some ts)
      (\<lambda>t. spawn env ''reprepro'' [Some ''includedeb'', t, Some deb] (Some d))"
  let ?did = "\<lambda>ok t. Did (ingest_call d deb (Some t)) ok"
  from conf have "read_file env (trace s) ?p = Some conf" by simp
  from getRepoTargets_read [OF this] targets
  have "addDeb env d deb s = ?loop ?s1"
    by (simp add: addDeb_def bnd_def andThen_def info_def emit_def)
  with run have loop: "?loop ?s1 = (r, s')" by simp
  note l = ingest_loop_run [OF loop]
  show ?thesis
  proof (cases r)
    case (Inr u)
    with l have "s' = s\<lparr>trace := trace s @ ?hd @ map (?did True) ts\<rparr>"
      by (simp add: comp_def)
    with Inr show ?thesis
      by (intro exI [of _ "?hd @ map (?did True) ts"]) simp
  next
    case (Inl e)
    with l obtain j where j: "j < length ts"
      "e = Rejected (ingest_call d deb (Some (ts ! j)))"
      "s' = s\<lparr>trace := trace s @ ?hd @ map (?did True) (take j ts) @ [?did False (ts ! j)]\<rparr>"
      "\<not> succeeds env (trace s @ ?hd @ map (?did True) (take j ts))
            (ingest_call d deb (Some (ts ! j)))"
      by (auto simp: comp_def take_map)
    show ?thesis
    proof (intro exI [of _ "?hd @ map (?did True) (take j ts) @ [?did False (ts ! j)]"] conjI allI impI)
      show "s' = s\<lparr>trace := trace s @ ?hd @ map (?did True) (take j ts) @ [?did False (ts ! j)]\<rparr>"
        by (rule j(3))
      show "ingestion_events (?hd @ map (?did True) (take j ts) @ [?did False (ts ! j)])
          = map (?did True) ts" if "r = Inr ()"
        using that Inl by simp
      fix e'
      assume "r = Inl e'"
      with Inl have e': "e' = e" by simp
      show "\<exists>j'<length ts. e' = Rejected (ingest_call d deb (Some (ts ! j')))
             \<and> ingestion_events (?hd @ map (?did True) (take j ts) @ [?did False (ts ! j)])
                 = map (?did True) (take j' ts) @ [?did False (ts ! j')]
             \<and> (\<exists>pre. ?hd @ map (?did True) (take j ts) @ [?did False (ts ! j)]
                     = pre @ [?did False (ts ! j')]
                   \<and> \<not> succeeds env (trace s @ pre) (ingest_call d deb (Some (ts ! j'))))"
      proof (intro exI [of _ j] conjI)
        show "j < length ts" by (rule j(1))
        show "e' = Rejected (ingest_call d deb (Some (ts ! j)))" using e' j(2) by simp
        show "ingestion_events (?hd @ map (?did True) (take j ts) @ [?did False (ts ! j)])
                 = map (?did True) (take j ts) @ [?did False (ts ! j)]"
          by simp
        show "\<exists>pre. ?hd @ map (?did True) (take j ts) @ [?did False (ts ! j)]
                     = pre @ [?did False (ts ! j)]
                   \<and> \<not> succeeds env (trace s @ pre) (ingest_call d deb (Some (ts ! j)))"
          using j(4) by (intro exI [of _ "?hd @ map (?did True) (take j ts)"]) simp
      qed
    qed
  qed
qed

lemma ingest_packages:
  assumes conf: "\<forall>h. read_file env h (path_join [d, ''conf'', ''distributions'']) = Some conf"
    and targets: "targets_loop (split conf [LF]) [] = map Some ts"
    and run: "for_of fs (\<lambda>f. addDeb env d (g f)) s = (r, s')"
  shows "\<exists>evs. s' = s\<lparr>trace := trace s @ evs\<rparr>
     \<and> (r = Inr () \<longrightarrow>
          ingestion_events evs = map (\<lambda>c. Did c True) (all_ingestions d (map g fs) ts))
     \<and> (\<forall>e. r = Inl e \<longrightarrow>
          (\<exists>j<length fs * length ts. e = Rejected (all_ingestions d (map g fs) ts ! j)
             \<and> ingestion_events evs
                 = map (\<lambda>c. Did c True) (take j (all_ingestions d (map g fs) ts))
                   @ [Did (all_ingestions d (map g fs) ts ! j) False]
             \<and> (\<exists>pre. evs = pre @ [Did (all_ingestions d (map g fs) ts ! j) False]
                   \<and> \<not> succeeds env (trace s @ pre) (all_ingestions d (map g fs) ts ! j))))"
  using run
proof (induction fs arbitrary: s)
  case Nil
  then show ?case
    by (intro exI [of _ "[]"]) (auto simp: resolve_def all_ingestions_def)
next
  case (Cons f fs)
  let ?body = "\<lambda>f. addDeb env d (g f)"
  let ?block = "map (\<lambda>t. ingest_call d (g f) (Some t)) ts"
  let ?rest = "all_ingestions d (map g fs) ts"
  let ?all = "all_ingestions d (map g (f # fs)) ts"
  have all: "?all = ?block @ ?rest" by (simp add: all_ingestions_Cons)
  have len: "length ?block = length ts" by simp
  obtain r1 s1 where first: "addDeb env d (g f) s = (r1, s1)" by (cases "addDeb env d (g f) s")
  let ?did = "\<lambda>ok t. Did (ingest_call d (g f) (Some t)) ok"
  from addDeb_run [OF conf targets first] obtain evs1 where
    a: "s1 = s\<lparr>trace := trace s @ evs1\<rparr>"
      "r1 = Inr () \<longrightarrow> ingestion_events evs1 = map (?did True) ts"
      "\<forall>e. r1 = Inl e \<longrightarrow>
          (\<exists>j<length ts. e = Rejected (ingest_call d (g f) (Some (ts ! j)))
             \<and> ingestion_events evs1 = map (?did True) (take j ts) @ [?did False (ts ! j)]
             \<and> (\<exists>pre. evs1 = pre @ [?did False (ts ! j)]
                   \<and> \<not> succeeds env (trace s @ pre) (ingest_call d (g f) (Some (ts ! j)))))"
    by blast
  have block: "map (\<lambda>c. Did c True) ?block = map (?did True) ts"
    by (simp add: comp_def)
  show ?case
  proof (cases r1)
    case (Inl e1)
    with first Cons.prems have r: "r = Inl e1" "s' = s1"
      by (simp_all add: andThen_def bnd_def)
    from a(3) Inl obtain j pre where j: "j < length ts"
      "e1 = Rejected (ingest_call d (g f) (Some (ts ! j)))"
      "ingestion_events evs1 = map (?did True) (take j ts) @ [?did False (ts ! j)]"
      "evs1 = pre @ [?did False (ts ! j)]"
      "\<not> succeeds env (trace s @ pre) (ingest_call d (g f) (Some (ts ! j)))"
      by blast
    from j(1) have nth: "?all ! j = ingest_call d (g f) (Some (ts ! j))"
      unfolding all by (simp add: nth_append)
    from j(1) have tk: "map (\<lambda>c. Did c True) (take j ?all) = map (?did True) (take j ts)"
      unfolding all by (simp add: take_map comp_def)
    from j(1) have bound: "j < length (f # fs) * length ts" by simp
    show ?thesis
    proof (intro exI [of _ evs1] conjI allI impI)
      show "s' = s\<lparr>trace := trace s @ evs1\<rparr>" using r(2) a(1) by simp
      show "ingestion_events evs1 = map (\<lambda>c. Did c True) ?all" if "r = Inr ()"
        using that r(1) by simp
      fix e
      assume "r = Inl e"
      with r(1) have e: "e = e1" by simp
      show "\<exists>j<length (f # fs) * length ts. e = Rejected (?all ! j)
             \<and> ingestion_events evs1 = map (\<lambda>c. Did c True) (take j ?all) @ [Did (?all ! j) False]
             \<and> (\<exists>pre. evs1 = pre @ [Did (?all ! j) False]
                   \<and> \<not> succeeds env (trace s @ pre) (?all ! j))"
      proof (intro exI [of _ j] conjI)
        show "j < length (f # fs) * length ts" by (rule bound)
        show "e = Rejected (?all ! j)" unfolding nth e by (rule j(2))
        show "ingestion_events evs1 = map (\<lambda>c. Did c True) (take j ?all) @ [Did (?all ! j) False]"
          unfolding nth tk by (rule j(3))
        show "\<exists>pre. evs1 = pre @ [Did (?all ! j) False]
                   \<and> \<not> succeeds env (trace s @ pre) (?all ! j)"
          unfolding nth using j(4,5) by blast
      qed
    qed
  next
    case (Inr u)
    with first Cons.prems have run: "for_of fs ?body s1 = (r, s')"
      by (simp add: andThen_def bnd_def)
    from Inr a(2) block have e1: "ingestion_events evs1 = map (\<lambda>c. Did c True) ?block" by simp
    from Cons.IH [OF run] obtain evs where
      ih: "s' = s1\<lparr>trace := trace s1 @ evs\<rparr>"
        "r = Inr () \<longrightarrow> ingestion_events evs = map (\<lambda>c. Did c True) ?rest"
        "\<forall>e. r = Inl e \<longrightarrow>
          (\<exists>j<length fs * length ts. e = Rejected (?rest ! j)
             \<and> ingestion_events evs = map (\<lambda>c. Did c True) (take j ?rest) @ [Did (?rest ! j) False]
             \<and> (\<exists>pre. evs = pre @ [Did (?rest ! j) False]
                   \<and> \<not> succeeds env (trace s1 @ pre) (?rest ! j)))"
      by blast
    show ?thesis
    proof (intro exI [of _ "evs1 @ evs"] conjI allI impI)
      show "s' = s\<lparr>trace := trace s @ evs1 @ evs\<rparr>" using ih(1) a(1) by simp
      show "ingestion_events (evs1 @ evs) = map (\<lambda>c. Did c True) ?all" if "r = Inr ()"
        using that ih(2) e1 unfolding all by simp
      fix e
      assume "r = Inl e"
      with ih(3) obtain j pre where j: "j < length fs * length ts" "e = Rejected (?rest ! j)"
        "ingestion_events evs = map (\<lambda>c. Did c True) (take j ?rest) @ [Did (?rest ! j) False]"
        "evs = pre @ [Did (?rest ! j) False]" "\<not> succeeds env (trace s1 @ pre) (?rest ! j)"
        by blast
      have nth: "?all ! (length ts + j) = ?rest ! j"
        unfolding all by (simp add: nth_append)
      have tk: "take (length ts + j) ?all = ?block @ take j ?rest"
        unfolding all by simp
      from j(1) have bound: "length ts + j < length (f # fs) * length ts" by simp
      show "\<exists>j<length (f # fs) * length ts. e = Rejected (?all ! j)
             \<and> ingestion_events (evs1 @ evs)
                 = map (\<lambda>c. Did c True) (take j ?all) @ [Did (?all ! j) False]
             \<and> (\<exists>pre. evs1 @ evs = pre @ [Did (?all ! j) False]
                   \<and> \<not> succeeds env (trace s @ pre) (?all ! j))"
      proof (intro exI [of _ "length ts + j"] conjI)
        show "length ts + j < length (f # fs) * length ts" by (rule bound)
        show "e = Rejected (?all ! (length ts + j))" unfolding nth by (rule j(2))
        show "ingestion_events (evs1 @ evs)
                 = map (\<lambda>c. Did c True) (take (length ts + j) ?all)
                   @ [Did (?all ! (length ts + j)) False]"
          unfolding nth tk using e1 j(3) by simp
        show "\<exists>pre. evs1 @ evs = pre @ [Did (?all ! (length ts + j)) False]
                   \<and> \<not> succeeds env (trace s @ pre) (?all ! (length ts + j))"
          unfolding nth using j(4,5) a(1) by (intro exI [of _ "evs1 @ pre"]) simp
      qed
    qed
  qed
qed

lemma map_of_assign2:
  "map_of (fold (\<lambda>(k, v). AList.update k v) [(k1, v1), (k2, v2)] kvs)
     = ((map_of kvs)(k1 \<mapsto> v1))(k2 \<mapsto> v2)"
  by (simp add: update_conv')

subsection \<open>Evaluated runs\<close>

lemmas model_defs =
  start_def start_guarded_def assign_building_def build_def buildWin_def buildWin_started_def
  buildWin_guarded_def buildLocal_def buildLocal_debs_def buildWithRunner_def makeMacRunner_def makeLinuxRunner_def
  readBuildVersion_def writeElectronBuilderConfigFile_def electronBuilderConfig_def readJson_def
  object_assign_def object_literal_def copyAndLog_def pushArtifacts_def pullArtifacts_def
  addDeb_def pullDebDatabase_def pushDebDatabase_def getRepoTargets_def getMatchingFilesInDir_def
  setDebVersion_def js_string_of_def path_join_def split_def at_index_def startsWith_def
  endsWith_def spawn_def rimraf_def mkdir_def writeFile_def getSecret_def readdir_def
  readFile_def ext_def info_def tryFinally_def andThen_def bnd_def throw_def resolve_def
  emit_def Let_def TYPES_def DESKTOP_GIT_REPO_def ELECTRON_BUILDER_CFG_FILE_def
  re_dmg_def re_mac_zip_def re_deb_def re_exe_def re_nupkg_def re_RELEASES_def
  DesktopReleaseBuilder_def

lemma targets_conf0: "targets_loop (split conf0 [LF]) [] = [Some ''buster'', Some ''bullseye'']"
  by (simp add: conf0_def split_def at_index_def startsWith_def LF_def)

lemma run_mkdir_fails:
  "start env_mkdir_fails builder0 state0 =
     (Inr (),
      state0\<lparr>riotSigningKeyContainer := Some ''key'',
        trace := start_head builder0 True @ pull_events builder0 True
          @ [build_start builder0 ''win64'', Did (Mkdir ''builds'') False,
             Error ''Build failed!'' (Rejected (Mkdir ''builds'')), SetBuilding False]\<rparr>)"
  by (simp add: model_defs env_mkdir_fails_def env_ok_def builder0_def state0_def start_head_def
      pull_events_def pull_call_def build_start_def)

lemma run_all_ok_case:
  "(case start env_ok builder0 state0 of (r, s') \<Rightarrow>
      r = Inr ()
      \<and> filter is_build_start (trace s') = map (build_start builder0) [''win64'', ''mac'', ''linux'']
      \<and> list_ex (is_push builder0) (trace s')
      \<and> \<not> list_ex is_build_failed (trace s')
      \<and> Did (pull_call builder0) True \<in> set (trace s')
      \<and> remote s' = [(''desktop/update/macos/latest'', ''1.6.0'')])"
  by (simp add: model_defs env_ok_def builder0_def state0_def build_start_def pkg0_def conf0_def
      is_build_start_def is_push_def is_build_failed_def push_call_def pull_call_def LF_def CR_def)

lemma run_all_ok:
  "fst (start env_ok builder0 state0) = Inr ()"
  "filter is_build_start (trace (snd (start env_ok builder0 state0)))
     = map (build_start builder0) [''win64'', ''mac'', ''linux'']"
  "list_ex (is_push builder0) (trace (snd (start env_ok builder0 state0)))"
  "\<not> list_ex is_build_failed (trace (snd (start env_ok builder0 state0)))"
  "Did (pull_call builder0) True \<in> set (trace (snd (start env_ok builder0 state0)))"
  "remote (snd (start env_ok builder0 state0)) = [(''desktop/update/macos/latest'', ''1.6.0'')]"
  using run_all_ok_case by (simp_all add: case_prod_beta)

lemma run_script_fails:
  "buildWin env_script_fails builder0 ''win64'' state0 =
     (Inl (Rejected (WinRunScript wb0)),
      state0\<lparr>trace := trace (snd (buildWin env_script_fails builder0 ''win64'' state0))\<rparr>)
   \<and> Did (WinStart wb0) True \<in> set (trace (snd (buildWin env_script_fails builder0 ''win64'' state0)))
   \<and> last (trace (snd (buildWin env_script_fails builder0 ''win64'' state0))) = Did (WinStop wb0) True"
  by (simp add: model_defs env_script_fails_def env_ok_def builder0_def state0_def pkg0_def wb0_def)

section \<open>The claims\<close>

subsection \<open>C1: the re-entrancy guard\<close>

text \<open>C1: a \<open>start()\<close> invoked while an earlier invocation is in progress (the \<open>building\<close>
  flag is set) should return without pulling, building or pushing. The source assigns
  \<open>this.building = false\<close> in the first statements of \<open>start\<close>, before it tests the
  flag, so the flag that the earlier invocation has set is cleared before the test
  reads it. Evaluated on a state whose flag is set, with every
  call succeeding: the run pulls, opens the build of all three platforms, and pushes.\<close>

theorem start_while_building_runs_again:
  "building (state0\<lparr>building := True\<rparr>)
   \<and> fst (start env_ok builder0 (state0\<lparr>building := True\<rparr>)) = Inr ()
   \<and> filter is_build_start (trace (snd (start env_ok builder0 (state0\<lparr>building := True\<rparr>))))
       = map (build_start builder0) [''win64'', ''mac'', ''linux'']
   \<and> Did (pull_call builder0) True \<in> set (trace (snd (start env_ok builder0 (state0\<lparr>building := True\<rparr>))))
   \<and> list_ex (is_push builder0) (trace (snd (start env_ok builder0 (state0\<lparr>building := True\<rparr>))))"
  using run_all_ok by (simp add: start_ignores_building_flag)

subsection \<open>C2: no publish on partial failure\<close>

text \<open>C2: take any run of \<open>start\<close> and any platform build in it, that is, any position of
  the trace at which the loop logs \<open>Starting build of\<close> for a type \<open>t\<close> and then calls
  \<open>build\<close> in the state reached there. If that call of \<open>build\<close> throws, the push of the
  published tree is not invoked anywhere in the run, the remote published tree is what it
  was before the run, no further platform is opened, and the run ends right after the
  failed build with the line \<open>Build failed!\<close> and the reset of the flag. Conversely the
  line \<open>Build failed!\<close> is logged only when such a call has thrown. When the push is
  invoked, the builds of all of \<open>TYPES\<close> were opened before it, in order, each of these
  calls of \<open>build\<close> returned normally, and no build is opened after it. Without a push
  the remote tree is unchanged. Every build is preceded by a successful pull.\<close>

theorem start_publishes_only_after_all_builds:
  assumes "start env b s = (r, s')"
  shows "\<exists>evs. trace s' = trace s @ evs \<and>
     (\<forall>pre t post e s''.
        evs = pre @ build_start b t # post \<and>
        build env b t (state_at s s' (pre @ [build_start b t])) = (Inl e, s'')
        \<longrightarrow> \<not> list_ex (is_push b) evs \<and> remote s' = remote s
            \<and> filter is_build_start post = []
            \<and> trace s' = trace s'' @ [Error ''Build failed!'' e, SetBuilding False]) \<and>
     (list_ex is_build_failed evs \<longrightarrow>
        \<not> list_ex (is_push b) evs \<and> remote s' = remote s \<and>
        (\<exists>k pre x. 0 < k \<and> k \<le> length TYPES \<and>
           filter is_build_start evs = map (build_start b) (take k TYPES) \<and>
           evs = pre @ [Error ''Build failed!'' x, SetBuilding False]) \<and>
        (\<exists>pre t post e s''. evs = pre @ build_start b t # post \<and>
           build env b t (state_at s s' (pre @ [build_start b t])) = (Inl e, s''))) \<and>
     (list_ex (is_push b) evs \<longrightarrow>
        (\<exists>pre ok post. evs = pre @ Did (push_call b) ok # post \<and>
           filter is_build_start pre = map (build_start b) TYPES \<and>
           \<not> list_ex is_build_failed pre \<and> filter is_build_start post = [] \<and>
           (\<forall>p t q. pre = p @ build_start b t # q \<longrightarrow>
              fst (build env b t (state_at s s' (p @ [build_start b t]))) = Inr ()))) \<and>
     (\<not> list_ex (is_push b) evs \<longrightarrow> remote s' = remote s) \<and>
     (\<forall>pre e post. evs = pre @ e # post \<and> is_build_start e \<longrightarrow> Did (pull_call b) True \<in> set pre)"
proof -
  from start_log_shape [OF assms] obtain evs where
    evs: "trace s' = trace s @ evs"
    and logged: "list_ex is_build_failed evs \<longrightarrow>
        \<not> list_ex (is_push b) evs \<and> remote s' = remote s \<and>
        (\<exists>k pre x. 0 < k \<and> k \<le> length TYPES \<and>
           filter is_build_start evs = map (build_start b) (take k TYPES) \<and>
           evs = pre @ [Error ''Build failed!'' x, SetBuilding False])"
    and pushed: "list_ex (is_push b) evs \<longrightarrow>
        (\<exists>pre ok post. evs = pre @ Did (push_call b) ok # post \<and>
           filter is_build_start pre = map (build_start b) TYPES \<and>
           \<not> list_ex is_build_failed pre \<and> filter is_build_start post = [])"
    and pulled: "\<forall>pre e post. evs = pre @ e # post \<and> is_build_start e
        \<longrightarrow> Did (pull_call b) True \<in> set pre"
    by blast
  have failing: "\<not> list_ex (is_push b) evs \<and> remote s' = remote s
            \<and> filter is_build_start post = []
            \<and> trace s' = trace s'' @ [Error ''Build failed!'' e, SetBuilding False]"
    if "evs = pre @ build_start b t # post"
      and "build env b t (state_at s s' (pre @ [build_start b t])) = (Inl e, s'')"
    for pre t post e s''
  proof -
    from evs that(1) have pos: "trace s' = trace s @ pre @ build_start b t # post" by simp
    from start_builds [OF assms pos] that(2)
    have "trace s' = trace s'' @ [Error ''Build failed!'' e, SetBuilding False]"
      "filter is_build_start post = []" "\<not> list_ex (is_push b) (pre @ post)" "remote s' = remote s"
      by simp_all
    with that(1) show ?thesis by simp
  qed
  have succeeded: "fst (build env b t (state_at s s' (p @ [build_start b t]))) = Inr ()"
    if "evs = p @ build_start b t # q" and "list_ex (is_push b) evs" for p t q
  proof -
    obtain r0 s0 where res: "build env b t (state_at s s' (p @ [build_start b t])) = (r0, s0)"
      by (cases "build env b t (state_at s s' (p @ [build_start b t]))")
    show ?thesis
    proof (cases r0)
      case (Inl e)
      with res failing [OF that(1)] that(2) show ?thesis by simp
    next
      case (Inr u)
      with res show ?thesis by simp
    qed
  qed
  have unpushed: "remote s' = remote s" if "\<not> list_ex (is_push b) evs"
    using assms
  proof (cases rule: start_cases)
    case (built key loop ok)
    with evs have "evs = start_head b True @ pull_events b True @ loop
        @ push_events b TYPES ok @ [SetBuilding False]" by simp
    with that show ?thesis by (simp add: push_events_has_push)
  qed simp_all
  have cause: "\<exists>pre t post e s''. evs = pre @ build_start b t # post \<and>
           build env b t (state_at s s' (pre @ [build_start b t])) = (Inl e, s'')"
    if "list_ex is_build_failed evs"
  proof -
    from logged that obtain k where nopush: "\<not> list_ex (is_push b) evs" and k: "0 < k"
      and markers: "filter is_build_start evs = map (build_start b) (take k TYPES)"
      by blast
    from k TYPES_nonempty have "take k TYPES \<noteq> []" by simp
    with markers have "filter is_build_start evs \<noteq> []" by simp
    from last_marker [OF this] obtain pre m post where
      d: "evs = pre @ m # post" "is_build_start m" "filter is_build_start post = []"
      by blast
    from d(1,2) have "m \<in> set (filter is_build_start evs)" by simp
    with markers obtain t where m: "m = build_start b t" by auto
    from evs d(1) m have pos: "trace s' = trace s @ pre @ build_start b t # post" by simp
    obtain r0 s0 where res: "build env b t (state_at s s' (pre @ [build_start b t])) = (r0, s0)"
      by (cases "build env b t (state_at s s' (pre @ [build_start b t]))")
    show ?thesis
    proof (cases r0)
      case (Inl e)
      with res d(1) m show ?thesis by blast
    next
      case (Inr u)
      with start_builds [OF assms pos] res d(3) have "list_ex (is_push b) post" by simp
      with d(1) nopush show ?thesis by simp
    qed
  qed
  have pushed': "\<exists>pre ok post. evs = pre @ Did (push_call b) ok # post \<and>
           filter is_build_start pre = map (build_start b) TYPES \<and>
           \<not> list_ex is_build_failed pre \<and> filter is_build_start post = [] \<and>
           (\<forall>p t q. pre = p @ build_start b t # q \<longrightarrow>
              fst (build env b t (state_at s s' (p @ [build_start b t]))) = Inr ())"
    if push: "list_ex (is_push b) evs"
  proof -
    from pushed push obtain pre ok post where
      d: "evs = pre @ Did (push_call b) ok # post"
        "filter is_build_start pre = map (build_start b) TYPES"
        "\<not> list_ex is_build_failed pre" "filter is_build_start post = []"
      by blast
    have "fst (build env b t (state_at s s' (p @ [build_start b t]))) = Inr ()"
      if "pre = p @ build_start b t # q" for p t q
    proof -
      from d(1) that have "evs = p @ build_start b t # (q @ Did (push_call b) ok # post)" by simp
      from succeeded [OF this push] show ?thesis .
    qed
    with d show ?thesis by blast
  qed
  show ?thesis
  proof (rule exI [of _ evs], intro conjI allI impI)
    show "trace s' = trace s @ evs" by (rule evs)
  next
    fix pre t post e s''
    assume a: "evs = pre @ build_start b t # post \<and>
        build env b t (state_at s s' (pre @ [build_start b t])) = (Inl e, s'')"
    from failing [of pre t post e s''] a
    show "\<not> list_ex (is_push b) evs" "remote s' = remote s" "filter is_build_start post = []"
      "trace s' = trace s'' @ [Error ''Build failed!'' e, SetBuilding False]"
      by simp_all
  next
    assume f: "list_ex is_build_failed evs"
    with logged show "\<not> list_ex (is_push b) evs" "remote s' = remote s"
      "\<exists>k pre x. 0 < k \<and> k \<le> length TYPES \<and>
           filter is_build_start evs = map (build_start b) (take k TYPES) \<and>
           evs = pre @ [Error ''Build failed!'' x, SetBuilding False]"
      by simp_all
    from cause [OF f] show "\<exists>pre t post e s''. evs = pre @ build_start b t # post \<and>
           build env b t (state_at s s' (pre @ [build_start b t])) = (Inl e, s'')" .
  next
    assume "list_ex (is_push b) evs"
    from pushed' [OF this] show "\<exists>pre ok post. evs = pre @ Did (push_call b) ok # post \<and>
           filter is_build_start pre = map (build_start b) TYPES \<and>
           \<not> list_ex is_build_failed pre \<and> filter is_build_start post = [] \<and>
           (\<forall>p t q. pre = p @ build_start b t # q \<longrightarrow>
              fst (build env b t (state_at s s' (p @ [build_start b t]))) = Inr ())" .
  next
    assume "\<not> list_ex (is_push b) evs"
    from unpushed [OF this] show "remote s' = remote s" .
  next
    fix pre e post
    assume "evs = pre @ e # post \<and> is_build_start e"
    with pulled show "Did (pull_call b) True \<in> set pre" by blast
  qed
qed

text \<open>Two runs: one in which creating the build directory of the first platform fails, so
  that the build of \<open>win64\<close> throws, and one in which every call succeeds.\<close>

theorem start_publishes_only_after_all_builds_witness:
  "(fst (build env_mkdir_fails builder0 ''win64''
           (state_at state0 (snd (start env_mkdir_fails builder0 state0))
              (start_head builder0 True @ pull_events builder0 True
               @ [build_start builder0 ''win64''])))
      = Inl (Rejected (Mkdir ''builds''))
      \<and> fst (start env_mkdir_fails builder0 state0) = Inr ()
      \<and> \<not> list_ex (is_push builder0) (trace (snd (start env_mkdir_fails builder0 state0)))
      \<and> remote (snd (start env_mkdir_fails builder0 state0)) = remote state0)
   \<and> (\<exists>pre ok post. fst (start env_ok builder0 state0) = Inr ()
      \<and> trace (snd (start env_ok builder0 state0)) = pre @ Did (push_call builder0) ok # post
      \<and> filter is_build_start pre = map (build_start builder0) TYPES
      \<and> \<not> list_ex is_build_failed pre)"
proof
  let ?pre = "start_head builder0 True @ pull_events builder0 True"
  let ?post = "[Did (Mkdir ''builds'') False,
             Error ''Build failed!'' (Rejected (Mkdir ''builds'')), SetBuilding False]"
  obtain r s' where run: "start env_mkdir_fails builder0 state0 = (r, s')"
    by (cases "start env_mkdir_fails builder0 state0")
  with run_mkdir_fails have r: "r = Inr ()"
    and tr: "trace s' = ?pre @ build_start builder0 ''win64'' # ?post"
    by auto
  have failed: "fst (build env_mkdir_fails builder0 ''win64''
           (state_at state0 s' (?pre @ [build_start builder0 ''win64''])))
      = Inl (Rejected (Mkdir ''builds''))"
    by (simp add: build_def buildWin_def mkdir_def ext_def andThen_def bnd_def startsWith_def
        env_mkdir_fails_def env_ok_def Let_def)
  then obtain s0 where b: "build env_mkdir_fails builder0 ''win64''
           (state_at state0 s' (?pre @ [build_start builder0 ''win64''])) = (Inl (Rejected (Mkdir ''builds'')), s0)"
    by (cases "build env_mkdir_fails builder0 ''win64''
           (state_at state0 s' (?pre @ [build_start builder0 ''win64'']))") simp
  from start_publishes_only_after_all_builds [OF run] obtain evs where
    evs: "trace s' = trace state0 @ evs"
    and failing: "\<forall>pre t post e s''.
        evs = pre @ build_start builder0 t # post \<and>
        build env_mkdir_fails builder0 t (state_at state0 s' (pre @ [build_start builder0 t]))
          = (Inl e, s'')
        \<longrightarrow> \<not> list_ex (is_push builder0) evs \<and> remote s' = remote state0
            \<and> filter is_build_start post = []
            \<and> trace s' = trace s'' @ [Error ''Build failed!'' e, SetBuilding False]"
    by (elim exE conjE) (rule that; assumption)
  from evs have same: "trace s' = evs" by (simp add: state0_def)
  with tr have "evs = ?pre @ build_start builder0 ''win64'' # ?post" by simp
  with failing b have "\<not> list_ex (is_push builder0) evs \<and> remote s' = remote state0"
    by blast
  with same r run failed
  show "fst (build env_mkdir_fails builder0 ''win64''
           (state_at state0 (snd (start env_mkdir_fails builder0 state0))
              (start_head builder0 True @ pull_events builder0 True
               @ [build_start builder0 ''win64''])))
      = Inl (Rejected (Mkdir ''builds''))
      \<and> fst (start env_mkdir_fails builder0 state0) = Inr ()
      \<and> \<not> list_ex (is_push builder0) (trace (snd (start env_mkdir_fails builder0 state0)))
      \<and> remote (snd (start env_mkdir_fails builder0 state0)) = remote state0"
    by simp
next
  obtain r s' where run: "start env_ok builder0 state0 = (r, s')"
    by (cases "start env_ok builder0 state0")
  with run_all_ok have ok: "r = Inr ()" "list_ex (is_push builder0) (trace s')" by simp_all
  from start_publishes_only_after_all_builds [OF run] obtain evs where
    evs: "trace s' = trace state0 @ evs"
    and pushed: "list_ex (is_push builder0) evs \<longrightarrow>
        (\<exists>pre ok post. evs = pre @ Did (push_call builder0) ok # post \<and>
           filter is_build_start pre = map (build_start builder0) TYPES \<and>
           \<not> list_ex is_build_failed pre \<and> filter is_build_start post = [] \<and>
           (\<forall>p t q. pre = p @ build_start builder0 t # q \<longrightarrow>
              fst (build env_ok builder0 t (state_at state0 s' (p @ [build_start builder0 t])))
                = Inr ()))"
    by (elim exE conjE) (rule that; assumption)
  from evs have "trace s' = evs" by (simp add: state0_def)
  with ok(2) pushed obtain pre ok' post where
    "trace s' = pre @ Did (push_call builder0) ok' # post"
    "filter is_build_start pre = map (build_start builder0) TYPES"
    "\<not> list_ex is_build_failed pre"
    by auto
  with run ok(1)
  show "\<exists>pre ok post. fst (start env_ok builder0 state0) = Inr ()
      \<and> trace (snd (start env_ok builder0 state0)) = pre @ Did (push_call builder0) ok # post
      \<and> filter is_build_start pre = map (build_start builder0) TYPES
      \<and> \<not> list_ex is_build_failed pre"
    by auto
qed

subsection \<open>C3: the platform set\<close>

text \<open>The constant \<open>TYPES\<close> has three entries and no \<open>win32\<close>: a run in which every call
  succeeds opens three builds, not the four of the enumeration
  \<open>win64, win32, mac, linux\<close>.\<close>

theorem four_platforms_counterexample:
  "TYPES \<noteq> [''win64'', ''win32'', ''mac'', ''linux'']
   \<and> fst (start env_ok builder0 state0) = Inr ()
   \<and> list_ex (is_push builder0) (trace (snd (start env_ok builder0 state0)))
   \<and> filter is_build_start (trace (snd (start env_ok builder0 state0)))
       \<noteq> map (build_start builder0) [''win64'', ''win32'', ''mac'', ''linux'']"
  using run_all_ok by (simp add: TYPES_def)

text \<open>C3 (amended): the configured platform list is \<open>win64, mac, linux\<close> in this order. Every
  run attempts the first \<open>k\<close> platforms of this list, in order, and nothing else. It
  attempts at least one exactly when the pull has succeeded. It stops at the first
  platform whose build throws: no platform is opened after a call of \<open>build\<close> that threw.
  It goes on after a build that returned: when the last build opened has returned, all
  three were attempted. So a run whose pull succeeds and in which every call of \<open>build\<close>
  returns attempts exactly these three.\<close>

theorem start_attempts_prefix_of_TYPES:
  assumes "start env b s = (r, s')"
  shows "TYPES = [''win64'', ''mac'', ''linux''] \<and>
    (\<exists>evs k. trace s' = trace s @ evs \<and> k \<le> length TYPES \<and>
        filter is_build_start evs = map (build_start b) (take k TYPES) \<and>
        (Did (pull_call b) True \<in> set evs \<longleftrightarrow> 0 < k) \<and>
        (\<forall>pre t post e s''.
            evs = pre @ build_start b t # post \<and>
            build env b t (state_at s s' (pre @ [build_start b t])) = (Inl e, s'')
            \<longrightarrow> filter is_build_start post = []) \<and>
        (\<forall>pre t post u s''.
            evs = pre @ build_start b t # post \<and>
            build env b t (state_at s s' (pre @ [build_start b t])) = (Inr u, s'') \<and>
            filter is_build_start post = []
            \<longrightarrow> k = length TYPES) \<and>
        (Did (pull_call b) True \<in> set evs \<and>
         (\<forall>pre t post. evs = pre @ build_start b t # post
            \<longrightarrow> fst (build env b t (state_at s s' (pre @ [build_start b t]))) = Inr ())
           \<longrightarrow> k = length TYPES) \<and>
        (\<not> list_ex is_build_failed evs \<and> Did (pull_call b) True \<in> set evs
           \<longrightarrow> k = length TYPES))"
proof
  show "TYPES = [''win64'', ''mac'', ''linux'']" by (simp add: TYPES_def)
next
  from start_attempts_shape [OF assms] obtain evs k where
    evs: "trace s' = trace s @ evs" and k: "k \<le> length TYPES"
    and markers: "filter is_build_start evs = map (build_start b) (take k TYPES)"
    and pulled: "Did (pull_call b) True \<in> set evs \<longleftrightarrow> 0 < k"
    and clean: "\<not> list_ex is_build_failed evs \<and> Did (pull_call b) True \<in> set evs
           \<longrightarrow> k = length TYPES"
    and pushed: "list_ex (is_push b) evs \<longrightarrow> k = length TYPES"
    by blast
  have stops: "filter is_build_start post = []"
    if "evs = pre @ build_start b t # post"
      and "build env b t (state_at s s' (pre @ [build_start b t])) = (Inl e, s'')"
    for pre t post e s''
  proof -
    from evs that(1) have pos: "trace s' = trace s @ pre @ build_start b t # post" by simp
    from start_builds [OF assms pos] that(2) show ?thesis by simp
  qed
  have goes_on: "k = length TYPES"
    if "evs = pre @ build_start b t # post"
      and "build env b t (state_at s s' (pre @ [build_start b t])) = (Inr u, s'')"
      and "filter is_build_start post = []"
    for pre t post u s''
  proof -
    from evs that(1) have pos: "trace s' = trace s @ pre @ build_start b t # post" by simp
    from start_builds [OF assms pos] that(2,3) have "list_ex (is_push b) post" by simp
    with that(1) have "list_ex (is_push b) evs" by simp
    with pushed show ?thesis by simp
  qed
  have all_built: "k = length TYPES"
    if pull: "Did (pull_call b) True \<in> set evs"
      and ok: "\<forall>pre t post. evs = pre @ build_start b t # post
            \<longrightarrow> fst (build env b t (state_at s s' (pre @ [build_start b t]))) = Inr ()"
  proof -
    from pull pulled have "0 < k" by simp
    with TYPES_nonempty have "take k TYPES \<noteq> []" by simp
    with markers have "filter is_build_start evs \<noteq> []" by simp
    from last_marker [OF this] obtain pre m post where
      d: "evs = pre @ m # post" "is_build_start m" "filter is_build_start post = []"
      by blast
    from d(1,2) have "m \<in> set (filter is_build_start evs)" by simp
    with markers obtain t where m: "m = build_start b t" by auto
    obtain r0 s0 where res: "build env b t (state_at s s' (pre @ [build_start b t])) = (r0, s0)"
      by (cases "build env b t (state_at s s' (pre @ [build_start b t]))")
    from ok d(1) m have "fst (build env b t (state_at s s' (pre @ [build_start b t]))) = Inr ()"
      by blast
    with res have "build env b t (state_at s s' (pre @ [build_start b t])) = (Inr (), s0)" by simp
    from goes_on [OF _ this d(3)] d(1) m show ?thesis by simp
  qed
  show "\<exists>evs k. trace s' = trace s @ evs \<and> k \<le> length TYPES \<and>
        filter is_build_start evs = map (build_start b) (take k TYPES) \<and>
        (Did (pull_call b) True \<in> set evs \<longleftrightarrow> 0 < k) \<and>
        (\<forall>pre t post e s''.
            evs = pre @ build_start b t # post \<and>
            build env b t (state_at s s' (pre @ [build_start b t])) = (Inl e, s'')
            \<longrightarrow> filter is_build_start post = []) \<and>
        (\<forall>pre t post u s''.
            evs = pre @ build_start b t # post \<and>
            build env b t (state_at s s' (pre @ [build_start b t])) = (Inr u, s'') \<and>
            filter is_build_start post = []
            \<longrightarrow> k = length TYPES) \<and>
        (Did (pull_call b) True \<in> set evs \<and>
         (\<forall>pre t post. evs = pre @ build_start b t # post
            \<longrightarrow> fst (build env b t (state_at s s' (pre @ [build_start b t]))) = Inr ())
           \<longrightarrow> k = length TYPES) \<and>
        (\<not> list_ex is_build_failed evs \<and> Did (pull_call b) True \<in> set evs
           \<longrightarrow> k = length TYPES)"
  proof (rule exI [of _ evs], rule exI [of _ k], intro conjI allI impI)
    show "trace s' = trace s @ evs" by (rule evs)
    show "k \<le> length TYPES" by (rule k)
    show "filter is_build_start evs = map (build_start b) (take k TYPES)" by (rule markers)
    show "(Did (pull_call b) True \<in> set evs) = (0 < k)" by (rule pulled)
  next
    fix pre t post e s''
    assume "evs = pre @ build_start b t # post \<and>
            build env b t (state_at s s' (pre @ [build_start b t])) = (Inl e, s'')"
    then show "filter is_build_start post = []" using stops by blast
  next
    fix pre t post u s''
    assume "evs = pre @ build_start b t # post \<and>
            build env b t (state_at s s' (pre @ [build_start b t])) = (Inr u, s'') \<and>
            filter is_build_start post = []"
    then show "k = length TYPES" using goes_on by blast
  next
    assume "Did (pull_call b) True \<in> set evs \<and>
         (\<forall>pre t post. evs = pre @ build_start b t # post
            \<longrightarrow> fst (build env b t (state_at s s' (pre @ [build_start b t]))) = Inr ())"
    then show "k = length TYPES" using all_built by blast
  next
    assume "\<not> list_ex is_build_failed evs \<and> Did (pull_call b) True \<in> set evs"
    with clean show "k = length TYPES" by blast
  qed
qed

text \<open>The run in which every call succeeds.\<close>

theorem start_attempts_prefix_of_TYPES_witness:
  "fst (start env_ok builder0 state0) = Inr ()
   \<and> filter is_build_start (trace (snd (start env_ok builder0 state0)))
       = map (build_start builder0) [''win64'', ''mac'', ''linux'']"
proof -
  obtain r s' where run: "start env_ok builder0 state0 = (r, s')"
    by (cases "start env_ok builder0 state0")
  with run_all_ok have ok: "r = Inr ()" "\<not> list_ex is_build_failed (trace s')"
    "Did (pull_call builder0) True \<in> set (trace s')" by simp_all
  from start_attempts_prefix_of_TYPES [OF run] obtain evs k where
    types: "TYPES = [''win64'', ''mac'', ''linux'']"
    and evs: "trace s' = trace state0 @ evs"
    and markers: "filter is_build_start evs = map (build_start builder0) (take k TYPES)"
    and all: "\<not> list_ex is_build_failed evs \<and> Did (pull_call builder0) True \<in> set evs
           \<longrightarrow> k = length TYPES"
    by (elim exE conjE) (rule that; assumption)
  from evs have "trace s' = evs" by (simp add: state0_def)
  with ok all markers have "filter is_build_start (trace s') = map (build_start builder0) TYPES"
    by simp
  with run ok(1) types show ?thesis by simp
qed

subsection \<open>C4: getMatchingFilesInDir\<close>

text \<open>C4: for every directory listing and every pattern, \<open>getMatchingFilesInDir\<close> returns
  the names of the listing that match the pattern, in listing order, and throws exactly
  when no name matches.\<close>

theorem getMatchingFilesInDir_filter:
  assumes "read_dir env (trace s) dir = Some listing"
  shows "getMatchingFilesInDir env dir exp s =
           (if filter (test exp) listing = []
            then Inl (NoFilesFound (''No files found matching '' @ source exp @ ''!''))
            else Inr (filter (test exp) listing),
            emit (Did (Readdir dir) True) s)"
  using assms
  by (simp add: getMatchingFilesInDir_def bnd_def readdir_def matching_loop_filter
      throw_def resolve_def Let_def)

text \<open>The listing \<open>a.dmg, b.txt\<close> filtered for names that end in \<open>.dmg\<close> and in \<open>.appimage\<close>.\<close>

theorem getMatchingFilesInDir_filter_witness:
  "fst (getMatchingFilesInDir env_listing ''dist'' re_dmg state0) = Inr [''a.dmg'']
   \<and> fst (getMatchingFilesInDir env_listing ''dist'' re_appimage state0)
       = Inl (NoFilesFound (''No files found matching /'' @ [BS] @ ''.appimage$/!''))"
  using getMatchingFilesInDir_filter [of env_listing state0 "''dist''" "[''a.dmg'', ''b.txt'']" re_dmg]
    getMatchingFilesInDir_filter
      [of env_listing state0 "''dist''" "[''a.dmg'', ''b.txt'']" re_appimage]
  by (simp add: env_listing_def re_dmg_def re_appimage_def endsWith_def)

subsection \<open>C5: the generated electron-builder configuration\<close>

text \<open>\<open>Object.assign\<close> replaces the members \<open>extraMetadata\<close> and \<open>deb\<close> of the \<open>build\<close>
  section as a whole. A manifest whose \<open>build.deb\<close> has a member \<open>depends\<close> yields a
  configuration without \<open>deb.depends\<close>, so the configuration is not the \<open>build\<close> section
  with only \<open>extraMetadata.productName\<close> and \<open>deb.fpm\<close> set.\<close>

theorem config_deep_merge_counterexample:
  "electronBuilderConfig ''mac'' pkg_with_deb = Inr cfg_with_deb
   \<and> at_path [''build'', ''deb'', ''depends''] pkg_with_deb = Some (JArr [JStr ''libnotify4''])
   \<and> at_path [''deb'', ''depends''] cfg_with_deb = None
   \<and> \<not> config_as_claimed ''mac'' pkg_with_deb cfg_with_deb"
proof -
  have run: "electronBuilderConfig ''mac'' pkg_with_deb = Inr cfg_with_deb"
    by (simp add: electronBuilderConfig_def pkg_with_deb_def cfg_with_deb_def object_assign_def
        object_literal_def)
  have before: "at_path [''build'', ''deb'', ''depends''] pkg_with_deb = Some (JArr [JStr ''libnotify4''])"
    by (simp add: pkg_with_deb_def)
  have after: "at_path [''deb'', ''depends''] cfg_with_deb = None"
    by (simp add: cfg_with_deb_def)
  have free: "\<not> comparable [''deb'', ''depends''] [''extraMetadata'', ''productName'']"
    "\<not> comparable [''deb'', ''depends''] [''deb'', ''fpm'']"
    by (simp_all add: comparable_def)
  have "\<not> config_as_claimed ''mac'' pkg_with_deb cfg_with_deb"
  proof
    assume "config_as_claimed ''mac'' pkg_with_deb cfg_with_deb"
    then have "\<forall>p. \<not> comparable p [''extraMetadata'', ''productName'']
          \<and> \<not> comparable p [''deb'', ''fpm'']
        \<longrightarrow> at_path p cfg_with_deb = at_path (''build'' # p) pkg_with_deb"
      by (simp add: config_as_claimed_def)
    with free have "at_path [''deb'', ''depends''] cfg_with_deb
        = at_path [''build'', ''deb'', ''depends''] pkg_with_deb"
      by blast
    with before after show False by simp
  qed
  with run before after show ?thesis by simp
qed

text \<open>C5 (amended): for every platform type and every manifest whose \<open>build\<close> member is an
  object, the generated configuration is an object whose member \<open>extraMetadata\<close> is
  exactly the object with the one property \<open>productName\<close> (\<open>Element\<close> for \<open>linux\<close>, the
  manifest's \<open>productName\<close> otherwise, and no property at all when the manifest has
  none), whose member \<open>deb\<close> is exactly the object with \<open>fpm\<close> equal to the list of the
  one flag \<open>--deb-custom-control=debcontrol\<close>, and whose other members are those of the
  \<open>build\<close> section; this object is what \<open>writeElectronBuilderConfigFile\<close> writes.\<close>

theorem electronBuilderConfig_replaces_members:
  assumes "map_of members ''build'' = Some (JObj kvs)"
  shows "\<exists>out. electronBuilderConfig type (JObj members) = Inr (JObj out)
     \<and> map_of out ''extraMetadata'' =
         Some (object_literal
                 [(''productName'',
                   if type = ''linux'' then Some (JStr ''Element'') else map_of members ''productName'')])
     \<and> map_of out ''deb'' = Some (JObj [(''fpm'', JArr [JStr ''--deb-custom-control=debcontrol''])])
     \<and> (\<forall>k. k \<noteq> ''extraMetadata'' \<and> k \<noteq> ''deb'' \<longrightarrow> map_of out k = map_of kvs k)
     \<and> (\<forall>env repoDir v s src.
           read_file env (trace s) (path_join [repoDir, ''package.json'']) = Some src
           \<and> json_parse env src = Some (JObj members)
           \<longrightarrow> calls (drop (length (trace s))
                   (trace (snd (writeElectronBuilderConfigFile env type repoDir v s))))
               = [ReadFile (path_join [repoDir, ''package.json'']),
                  WriteFile (path_join [repoDir, ELECTRON_BUILDER_CFG_FILE])
                    (json_stringify env (JObj out))])"
proof -
  let ?name = "if type = ''linux'' then Some (JStr ''Element'') else map_of members ''productName''"
  let ?props = "[(''extraMetadata'', object_literal [(''productName'', ?name)]),
               (''deb'', JObj [(''fpm'', JArr [JStr ''--deb-custom-control=debcontrol''])])]"
  let ?out = "fold (\<lambda>(k, v). AList.update k v) ?props kvs"
  have cfg: "electronBuilderConfig type (JObj members) = Inr (JObj ?out)"
    using assms by (simp add: electronBuilderConfig_def object_assign_def)
  have m: "map_of ?out = ((map_of kvs)(''extraMetadata'' \<mapsto> object_literal [(''productName'', ?name)]))
      (''deb'' \<mapsto> JObj [(''fpm'', JArr [JStr ''--deb-custom-control=debcontrol''])])"
    by (rule map_of_assign2)
  have written: "calls (drop (length (trace s))
                   (trace (snd (writeElectronBuilderConfigFile env type repoDir v s))))
               = [ReadFile (path_join [repoDir, ''package.json'']),
                  WriteFile (path_join [repoDir, ELECTRON_BUILDER_CFG_FILE])
                    (json_stringify env (JObj ?out))]"
    if "read_file env (trace s) (path_join [repoDir, ''package.json'']) = Some src"
      and "json_parse env src = Some (JObj members)"
    for env repoDir v s src
    using that cfg
    by (simp add: writeElectronBuilderConfigFile_def readJson_def bnd_def readFile_def resolve_def
        writeFile_def ext_def emit_def Let_def)
  show ?thesis
  proof (intro exI [of _ ?out] conjI)
    show "electronBuilderConfig type (JObj members) = Inr (JObj ?out)" by (rule cfg)
    show "map_of ?out ''extraMetadata'' = Some (object_literal [(''productName'', ?name)])"
      unfolding m by simp
    show "map_of ?out ''deb'' = Some (JObj [(''fpm'', JArr [JStr ''--deb-custom-control=debcontrol''])])"
      unfolding m by simp
    show "\<forall>k. k \<noteq> ''extraMetadata'' \<and> k \<noteq> ''deb'' \<longrightarrow> map_of ?out k = map_of kvs k"
      unfolding m by simp
    show "\<forall>env repoDir v s src.
           read_file env (trace s) (path_join [repoDir, ''package.json'']) = Some src
           \<and> json_parse env src = Some (JObj members)
           \<longrightarrow> calls (drop (length (trace s))
                   (trace (snd (writeElectronBuilderConfigFile env type repoDir v s))))
               = [ReadFile (path_join [repoDir, ''package.json'']),
                  WriteFile (path_join [repoDir, ELECTRON_BUILDER_CFG_FILE])
                    (json_stringify env (JObj ?out))]"
      using written by blast
  qed
qed

text \<open>The configuration generated for \<open>linux\<close> from a manifest with a \<open>build.deb\<close> member.\<close>

theorem electronBuilderConfig_replaces_members_witness:
  "electronBuilderConfig ''linux'' pkg_with_deb =
     Inr (JObj [(''appId'', JStr ''im.riot.app''),
                (''deb'', JObj [(''fpm'', JArr [JStr ''--deb-custom-control=debcontrol''])]),
                (''extraMetadata'', JObj [(''productName'', JStr ''Element'')])])"
  using electronBuilderConfig_replaces_members
    [of "[(''productName'', JStr ''Element Nightly''), (''version'', JStr ''1.6.0''),
          (''build'', JObj [(''appId'', JStr ''im.riot.app''),
                            (''deb'', JObj [(''depends'', JArr [JStr ''libnotify4''])])])]"
        "[(''appId'', JStr ''im.riot.app''), (''deb'', JObj [(''depends'', JArr [JStr ''libnotify4''])])]"
        "''linux''"]
  by (simp add: electronBuilderConfig_def pkg_with_deb_def object_assign_def object_literal_def)

subsection \<open>C6: the Debian control file\<close>

text \<open>C6: for every template content and every version string, \<open>setDebVersion\<close> writes to
  the output file the template content followed by the line \<open>Version: \<close> and the
  version, ended by a line feed; it logs the version when the write succeeds and
  rejects when it does not.\<close>

theorem setDebVersion_content:
  assumes "read_file env (trace s) templateFile = Some template"
  shows "setDebVersion env (Some (JStr ver)) templateFile outFile s =
           (let contents = template @ ''Version: '' @ ver @ [LF];
                h = trace s @ [Did (ReadFile templateFile) True]
            in if succeeds env h (WriteFile outFile contents)
               then (Inr (), s\<lparr>trace := h @ [Did (WriteFile outFile contents) True,
                                             Info (''Version set to '' @ ver)]\<rparr>)
               else (Inl (Rejected (WriteFile outFile contents)),
                     s\<lparr>trace := h @ [Did (WriteFile outFile contents) False]\<rparr>))"
  using assms
  by (simp add: setDebVersion_def bnd_def andThen_def readFile_def writeFile_def ext_def
      info_def emit_def js_string_of_def Let_def)

text \<open>The template \<open>Package: element\<close> and the version \<open>1.6.0\<close>.\<close>

theorem setDebVersion_content_witness:
  "setDebVersion env_template (Some (JStr ''1.6.0'')) ''control.template'' ''debcontrol'' state0 =
     (Inr (), state0\<lparr>trace :=
        [Did (ReadFile ''control.template'') True,
         Did (WriteFile ''debcontrol'' (''Package: element'' @ [LF] @ ''Version: 1.6.0'' @ [LF])) True,
         Info ''Version set to 1.6.0'']\<rparr>)"
  using setDebVersion_content
      [of env_template state0 "''control.template''" "''Package: element'' @ [LF]" "''1.6.0''"
        "''debcontrol''"]
  by (simp add: env_template_def env_ok_def state0_def)

subsection \<open>C7: ingestion per package and target\<close>

text \<open>The first ingestion that fails rejects \<open>addDeb\<close> and with it the loop of
  \<open>buildLocal\<close> over the packages: with one package, the targets \<open>buster\<close> and
  \<open>bullseye\<close>, and a \<open>reprepro\<close> that fails, one ingestion is performed, not two.\<close>

theorem ingestion_count_counterexample:
  "targets_loop (split conf0 [LF]) [] = [Some ''buster'', Some ''bullseye'']
   \<and> read_file env_reprepro_fails [] (path_join [debDir builder0, ''conf'', ''distributions''])
       = Some conf0
   \<and> ingestions
       (trace (snd (buildLocal_debs env_reprepro_fails builder0 ''builds/element-desktop-linux-v1''
                      [''a.deb''] state0)))
       = [ingest_call ''/srv/debian'' ''/srv/builds/element-desktop-linux-v1/dist/a.deb''
            (Some ''buster'')]
   \<and> length (ingestions
         (trace (snd (buildLocal_debs env_reprepro_fails builder0
                        ''builds/element-desktop-linux-v1'' [''a.deb''] state0))))
       \<noteq> length [''a.deb''] * length [''buster'', ''bullseye'']"
proof -
  have "ingestions
       (trace (snd (buildLocal_debs env_reprepro_fails builder0 ''builds/element-desktop-linux-v1''
                      [''a.deb''] state0)))
       = [ingest_call ''/srv/debian'' ''/srv/builds/element-desktop-linux-v1/dist/a.deb''
            (Some ''buster'')]"
    by (simp add: buildLocal_debs_def addDeb_def getRepoTargets_def bnd_def andThen_def
        readFile_def resolve_def info_def emit_def spawn_def ext_def env_reprepro_fails_def
        env_ok_def state0_def targets_conf0 is_reprepro_def ingestions_def ingest_call_def
        builder0_def DesktopReleaseBuilder_def path_join_def Let_def)
  with targets_conf0 show ?thesis by (simp add: env_reprepro_fails_def env_ok_def)
qed

text \<open>C7 (amended): the loop of \<open>buildLocal\<close> over N packages, on a repository whose listing
  exposes M targets, performs one ingestion per pair of package and target, packages in
  order and targets in order for each, up to and including the first ingestion that
  fails. When the loop returns, all N times M ingestions were performed, in this order,
  and each succeeded. When it throws, the ingestions before some pair \<open>j\<close> succeeded, the
  ingestion of pair \<open>j\<close> was the last event of the loop and failed, no later pair was
  ingested, and the error thrown is the rejection of that ingestion. The loop returns
  when every ingestion succeeds.\<close>

theorem ingestion_per_package_and_target:
  assumes conf: "\<forall>h. read_file env h (path_join [debDir b, ''conf'', ''distributions'']) = Some conf"
    and targets: "targets_loop (split conf [LF]) [] = map Some ts"
  shows "\<exists>evs. snd (buildLocal_debs env b repoDir fs s) = s\<lparr>trace := trace s @ evs\<rparr>
     \<and> length (all_ingestions (debDir b) (built_debs b repoDir fs) ts) = length fs * length ts
     \<and> (fst (buildLocal_debs env b repoDir fs s) = Inr () \<longrightarrow>
          ingestion_events evs
            = map (\<lambda>c. Did c True) (all_ingestions (debDir b) (built_debs b repoDir fs) ts))
     \<and> (\<forall>e. fst (buildLocal_debs env b repoDir fs s) = Inl e \<longrightarrow>
          (\<exists>j<length fs * length ts.
             e = Rejected (all_ingestions (debDir b) (built_debs b repoDir fs) ts ! j)
             \<and> ingestion_events evs
                 = map (\<lambda>c. Did c True)
                       (take j (all_ingestions (debDir b) (built_debs b repoDir fs) ts))
                   @ [Did (all_ingestions (debDir b) (built_debs b repoDir fs) ts ! j) False]
             \<and> (\<exists>pre. evs = pre @ [Did (all_ingestions (debDir b) (built_debs b repoDir fs) ts ! j) False]
                   \<and> \<not> succeeds env (trace s @ pre)
                         (all_ingestions (debDir b) (built_debs b repoDir fs) ts ! j))))
     \<and> ((\<forall>h deb t. succeeds env h (ingest_call (debDir b) deb t))
          \<longrightarrow> fst (buildLocal_debs env b repoDir fs s) = Inr ())"
proof -
  let ?g = "\<lambda>f. path_join [cwd b, repoDir, ''dist'', f]"
  let ?all = "all_ingestions (debDir b) (built_debs b repoDir fs) ts"
  obtain r s' where run: "buildLocal_debs env b repoDir fs s = (r, s')"
    by (cases "buildLocal_debs env b repoDir fs s")
  then have loop: "for_of fs (\<lambda>f. addDeb env (debDir b) (?g f)) s = (r, s')"
    by (simp add: buildLocal_debs_def)
  have all: "all_ingestions (debDir b) (map ?g fs) ts = ?all"
    by (simp add: built_debs_def)
  from ingest_packages [OF conf targets loop, unfolded all] obtain evs where
    p: "s' = s\<lparr>trace := trace s @ evs\<rparr>"
      "r = Inr () \<longrightarrow> ingestion_events evs = map (\<lambda>c. Did c True) ?all"
      "\<forall>e. r = Inl e \<longrightarrow>
          (\<exists>j<length fs * length ts. e = Rejected (?all ! j)
             \<and> ingestion_events evs = map (\<lambda>c. Did c True) (take j ?all) @ [Did (?all ! j) False]
             \<and> (\<exists>pre. evs = pre @ [Did (?all ! j) False]
                   \<and> \<not> succeeds env (trace s @ pre) (?all ! j)))"
    by blast
  have len: "length ?all = length fs * length ts"
    by (simp add: length_all_ingestions built_debs_def)
  have ok: "r = Inr ()" if good: "\<forall>h deb t. succeeds env h (ingest_call (debDir b) deb t)"
  proof (cases r)
    case (Inl e)
    with p(3) obtain j pre where j: "j < length fs * length ts"
      "\<not> succeeds env (trace s @ pre) (?all ! j)"
      by blast
    from j(1) len have "?all ! j \<in> set ?all" by simp
    from all_ingestions_member [OF this] obtain deb t where "?all ! j = ingest_call (debDir b) deb t"
      by blast
    with j(2) good show ?thesis by simp
  next
    case (Inr u)
    then show ?thesis by simp
  qed
  show ?thesis
    unfolding run fst_conv snd_conv
    using p len ok by (intro exI [of _ evs]) blast
qed

text \<open>One package and the targets \<open>buster\<close> and \<open>bullseye\<close>: two ingestions, both successful.\<close>

theorem ingestion_per_package_and_target_witness:
  "fst (buildLocal_debs env_ok builder0 ''builds/element-desktop-linux-v1'' [''a.deb''] state0)
     = Inr ()
   \<and> ingestion_events
       (trace (snd (buildLocal_debs env_ok builder0 ''builds/element-desktop-linux-v1''
                      [''a.deb''] state0)))
     = [Did (ingest_call ''/srv/debian'' ''/srv/builds/element-desktop-linux-v1/dist/a.deb''
               (Some ''buster'')) True,
        Did (ingest_call ''/srv/debian'' ''/srv/builds/element-desktop-linux-v1/dist/a.deb''
               (Some ''bullseye'')) True]"
proof -
  let ?run = "buildLocal_debs env_ok builder0 ''builds/element-desktop-linux-v1'' [''a.deb''] state0"
  let ?all = "all_ingestions (debDir builder0)
      (built_debs builder0 ''builds/element-desktop-linux-v1'' [''a.deb'']) [''buster'', ''bullseye'']"
  have conf: "\<forall>h. read_file env_ok h (path_join [debDir builder0, ''conf'', ''distributions''])
      = Some conf0"
    by (simp add: env_ok_def)
  have ok: "\<forall>h deb t. succeeds env_ok h (ingest_call (debDir builder0) deb t)"
    by (simp add: env_ok_def)
  have targets: "targets_loop (split conf0 [LF]) [] = map Some [''buster'', ''bullseye'']"
    by (simp add: targets_conf0)
  from ingestion_per_package_and_target [OF conf targets,
      of "''builds/element-desktop-linux-v1''" "[''a.deb'']" state0]
  obtain evs where
    evs: "snd ?run = state0\<lparr>trace := trace state0 @ evs\<rparr>"
    and complete: "fst ?run = Inr () \<longrightarrow> ingestion_events evs = map (\<lambda>c. Did c True) ?all"
    and good: "(\<forall>h deb t. succeeds env_ok h (ingest_call (debDir builder0) deb t))
        \<longrightarrow> fst ?run = Inr ()"
    by (elim exE conjE) (rule that; assumption)
  from good ok have r: "fst ?run = Inr ()" by blast
  with complete have "ingestion_events evs = map (\<lambda>c. Did c True) ?all" by blast
  moreover from evs have "trace (snd ?run) = evs" by (simp add: state0_def)
  moreover have "?all =
      [ingest_call ''/srv/debian'' ''/srv/builds/element-desktop-linux-v1/dist/a.deb'' (Some ''buster''),
       ingest_call ''/srv/debian'' ''/srv/builds/element-desktop-linux-v1/dist/a.deb'' (Some ''bullseye'')]"
    by (simp add: all_ingestions_def built_debs_def builder0_def DesktopReleaseBuilder_def
        path_join_def)
  ultimately show ?thesis using r by simp
qed

subsection \<open>C8: the signing credential comes first\<close>

text \<open>C8: every run of \<open>start\<close> begins with its opening log line, the reset of the
  \<open>building\<close> flag and the request for the secret \<open>riot_key_container\<close>, before any
  other call. When the secret cannot be had, the run rejects there: nothing is pulled,
  built or pushed, and the flag is never set.\<close>

theorem start_secret_first:
  "(\<exists>ok rest. trace (snd (start env b s)) = trace s @ start_head b ok @ rest)
   \<and> (get_secret env
         (trace s @ [Info (''Starting Element Desktop '' @ desktopBranch b @ '' release builder...''),
                     SetBuilding False]) ''riot_key_container'' = None
        \<longrightarrow> start env b s =
              (Inl (Rejected (GetSecret ''riot_key_container'')),
               s\<lparr>building := False, trace := trace s @ start_head b False\<rparr>))"
proof
  obtain r s' where run: "start env b s = (r, s')" by (cases "start env b s")
  then show "\<exists>ok rest. trace (snd (start env b s)) = trace s @ start_head b ok @ rest"
  proof (cases rule: start_cases)
    case no_secret
    with run show ?thesis by (intro exI [of _ False] exI [of _ "[]"]) simp
  next
    case (no_pull key)
    with run show ?thesis
      by (intro exI [of _ True] exI [of _ "pull_events b False @ [SetBuilding False]"]) simp
  next
    case (aborted key loop k pre x)
    with run show ?thesis
      by (intro exI [of _ True] exI [of _ "pull_events b True @ loop @ [SetBuilding False]"]) simp
  next
    case (built key loop ok)
    with run show ?thesis
      by (intro exI [of _ True]
            exI [of _ "pull_events b True @ loop @ push_events b TYPES ok @ [SetBuilding False]"]) simp
  qed
next
  show "get_secret env
         (trace s @ [Info (''Starting Element Desktop '' @ desktopBranch b @ '' release builder...''),
                     SetBuilding False]) ''riot_key_container'' = None
        \<longrightarrow> start env b s =
              (Inl (Rejected (GetSecret ''riot_key_container'')),
               s\<lparr>building := False, trace := trace s @ start_head b False\<rparr>)"
    by (simp add: start_unfold)
qed

text \<open>A run in an environment without the secret.\<close>

theorem start_secret_first_witness:
  "start env_no_secret builder0 state0 =
     (Inl (Rejected (GetSecret ''riot_key_container'')),
      state0\<lparr>trace := [Info ''Starting Element Desktop v1 release builder...'',
                         SetBuilding False,
                         Did (GetSecret ''riot_key_container'') False]\<rparr>)"
  using start_secret_first [of env_no_secret builder0 state0]
  by (simp add: env_no_secret_def env_ok_def state0_def start_head_def builder0_def
      DesktopReleaseBuilder_def)

subsection \<open>C9: the remote environment is stopped\<close>

text \<open>C9: \<open>buildWin\<close>, entered with the remote environment stopped, leaves it stopped
  whether it returns or throws, and every successful \<open>builder.start()\<close> in it is
  followed by a \<open>builder.stop()\<close> on the same builder.\<close>

theorem buildWin_stops_builder:
  assumes "vm_after (trace s) = Stopped"
  shows "vm_after (trace (snd (buildWin env b type s))) = Stopped
     \<and> (\<forall>pre wb post.
           trace (snd (buildWin env b type s)) = trace s @ pre @ Did (WinStart wb) True # post
           \<longrightarrow> (\<exists>ok. Did (WinStop wb) ok \<in> set post))"
proof -
  from moves_buildWin [of env b type] assms
  have stopped: "vm_after (trace (snd (buildWin env b type s))) = Stopped"
    by (auto simp: moves_def split: sum.splits)
  then show ?thesis
    by (metis vm_stop_follows_start)
qed

text \<open>A Windows build whose script fails.\<close>

theorem buildWin_stops_builder_witness:
  "vm_after (trace state0) = Stopped
   \<and> fst (buildWin env_script_fails builder0 ''win64'' state0) = Inl (Rejected (WinRunScript wb0))
   \<and> Did (WinStart wb0) True \<in> set (trace (snd (buildWin env_script_fails builder0 ''win64'' state0)))
   \<and> last (trace (snd (buildWin env_script_fails builder0 ''win64'' state0))) = Did (WinStop wb0) True
   \<and> vm_after (trace (snd (buildWin env_script_fails builder0 ''win64'' state0))) = Stopped"
proof -
  have idle: "vm_after (trace state0) = Stopped"
    by (simp add: state0_def vm_after_def)
  from buildWin_stops_builder [OF idle] run_script_fails idle show ?thesis
    by (metis fst_conv)
qed

subsection \<open>C10: a repository without targets\<close>

text \<open>C10: when no line of \<open>conf/distributions\<close> starts with \<open>Codename\<close>, \<open>getRepoTargets\<close>
  returns the empty list, and \<open>addDeb\<close> returns without error after logging, having
  performed no ingestion.\<close>

theorem no_codename_no_ingestion:
  assumes "read_file env (trace s) (path_join [d, ''conf'', ''distributions'']) = Some conf"
    and "\<forall>line \<in> set (split conf [LF]). \<not> startsWith line ''Codename''"
  shows "getRepoTargets env d s =
           (Inr [], emit (Did (ReadFile (path_join [d, ''conf'', ''distributions''])) True) s)
     \<and> addDeb env d deb s =
           (Inr (), s\<lparr>trace := trace s @
              [Did (ReadFile (path_join [d, ''conf'', ''distributions''])) True,
               Info (''Adding '' @ deb @ '' for ...'')]\<rparr>)
     \<and> ingestions [Did (ReadFile (path_join [d, ''conf'', ''distributions''])) True,
                   Info (''Adding '' @ deb @ '' for ...'')] = []"
proof -
  from assms(2) have "filter (\<lambda>l. startsWith l ''Codename'') (split conf [LF]) = []"
    by (simp add: filter_empty_conv)
  then have none: "targets_loop (split conf [LF]) [] = []"
    by (simp add: targets_loop_filter)
  with getRepoTargets_read [OF assms(1)] have
    g: "getRepoTargets env d s =
           (Inr [], emit (Did (ReadFile (path_join [d, ''conf'', ''distributions''])) True) s)"
    by simp
  then show ?thesis
    by (simp add: addDeb_def bnd_def andThen_def info_def emit_def resolve_def)
qed

text \<open>A repository configuration with two lines and no \<open>Codename\<close>.\<close>

theorem no_codename_no_ingestion_witness:
  "addDeb env_no_codename ''/srv/debian'' ''a.deb'' state0 =
     (Inr (), state0\<lparr>trace :=
        [Did (ReadFile ''/srv/debian/conf/distributions'') True, Info ''Adding a.deb for ...'']\<rparr>)"
proof -
  have lines: "\<forall>line \<in> set (split conf_no_codename [LF]). \<not> startsWith line ''Codename''"
    by (simp add: conf_no_codename_def split_def startsWith_def LF_def)
  have read: "read_file env_no_codename (trace state0)
      (path_join [''/srv/debian'', ''conf'', ''distributions'']) = Some conf_no_codename"
    by (simp add: env_no_codename_def)
  from no_codename_no_ingestion [OF read lines, of "''a.deb''"] show ?thesis
    by (simp add: state0_def path_join_def)
qed

end
